theory Spec2Isabelle
  imports Complex_Main "HOL-Library.Word"
begin

section \<open>The spirometer sketch (sketch\_dec17a.ino)\<close>

text \<open>
  The sketch keeps its session in global variables and advances it once per call of
  \<open>loop()\<close>. The globals become a record that is passed through the loop body and
  returned updated; everything the body obtains from the hardware during one call (the
  ADC sample, each value returned by \<open>millis()\<close>, the button polls) is a field of
  an input record.

  Numbers: \<open>unsigned long\<close> is a 32-bit word, so clock differences wrap as they do on
  the board. The C type \<open>float\<close> is idealised as \<open>real\<close>: arithmetic is exact and
  there is no rounding, infinity or NaN. The one operation of the sketch that can
  produce a NaN from finite operands, \<open>sqrt\<close> of a negative number, is modelled as a
  partial function, and a NaN flow is a fault of the loop.

  The rounded arithmetic of the board differs from the exact one in kind at two places:
  a product of positive values can underflow to 0, so that a tiny positive smoothed
  value gives the flow 0, and the stored offset is rounded, which moves the boundary of
  the deadzone by less than a ten-thousandth of a unit. The properties C1 to C10 below
  are stated so that neither matters: none concludes that a computed value is non-zero
  from its operands being non-zero, and a hypothesis on the deadzone either speaks of
  its result or places the adjusted sample below 5.4 by the exact comparison, where it
  is at most 5.38 (offsets are multiples of 0.02) and the board zeroes it as well.
\<close>

subsection \<open>Globals and constants\<close>

record state =
  sensorOffset :: real
  filteredValue :: real
  previousMillis :: "32 word"
  lastDisplayTime :: "32 word"
  breathStopTimer :: "32 word"
  currentVol :: real
  peakFlow :: real
  previousFlow :: real
  isBreathing :: bool

definition k_constant :: real where
  "k_constant = 46.5"

definition VOLUME_SCALER :: real where
  "VOLUME_SCALER = 1.7"

definition alpha :: real where
  "alpha = 0.1"

definition START_THRESHOLD :: real where
  "START_THRESHOLD = 2.0"

definition CUTOFF_THRESHOLD :: real where
  "CUTOFF_THRESHOLD = 1.0"

definition BREATH_TIMEOUT :: "32 word" where
  "BREATH_TIMEOUT = 1000"

subsection \<open>What one call of the loop reads from the board\<close>

text \<open>
  \<open>millis()\<close> is called at up to six places during one pass: at the top of the loop
  (line 75), when the flow exceeds the start threshold (105), in the stop check (124),
  in the display check (137), after the live screen was drawn (139) and at the end of
  \<open>showResultsWindow\<close> (208). Each call has its own field; a call that is not reached
  leaves its field unread. \<open>button\<close> holds the successive results of
  \<open>digitalRead(buttonPin) == HIGH\<close> seen by the wait loop of \<open>showResultsWindow\<close>.
\<close>

record inputs =
  t_loop :: "32 word"
  raw :: int
  t_start :: "32 word"
  t_stop :: "32 word"
  button :: "bool list"
  t_reset :: "32 word"
  t_disp :: "32 word"
  t_drawn :: "32 word"

datatype display_event =
  is_Result: Result real real
| Live real real

text \<open>
  A pass that does not return: its flow would be NaN, or it is held in the button wait
  forever, after it has shown the given screens.
\<close>

datatype fault = NaN_flow | Blocked "display_event list"

record tick_out =
  nxt :: state
  flow :: real
  shown :: "display_event list"

subsection \<open>setup()\<close>

text \<open>
  When \<open>display.begin\<close> fails, \<open>setup()\<close> spins in \<open>for(;;)\<close> and never returns,
  which is \<open>None\<close>. Otherwise it calibrates: fifty ADC samples are summed in a
  \<open>long\<close> and divided by \<open>50.0\<close>. The samples are given as a function of the loop
  index, the clock value is the one \<open>millis()\<close> returns at line 70.
\<close>

definition setup_board :: "bool \<Rightarrow> (nat \<Rightarrow> int) \<Rightarrow> 32 word \<Rightarrow> state option" where
  "setup_board display_begin analogRead t0 =
     (if \<not> display_begin then None
      else
        (let total = fold (\<lambda>i total. total + analogRead i) [0..<50] 0
         in Some \<lparr> sensorOffset = real_of_int total / 50.0,
                   filteredValue = 0.0,
                   previousMillis = t0,
                   lastDisplayTime = 0,
                   breathStopTimer = 0,
                   currentVol = 0.0,
                   peakFlow = 0.0,
                   previousFlow = 0.0,
                   isBreathing = False \<rparr>))"

subsection \<open>The loop body, section by section\<close>

text \<open>Lines 81-88: offset subtraction and the zero lock.\<close>

definition deadzone :: "real \<Rightarrow> real \<Rightarrow> real" where
  "deadzone rawValue offset =
     (let adjustedValue = rawValue - offset
      in if adjustedValue < 5.4 then 0 else adjustedValue)"

text \<open>Line 91: exponential smoothing.\<close>

definition smooth :: "real \<Rightarrow> real \<Rightarrow> real" where
  "smooth filtered adjustedValue = (filtered * (1.0 - alpha)) + (adjustedValue * alpha)"

text \<open>Lines 94-95: the pressure computed from the smoothed value.\<close>

definition pressurePa :: "real \<Rightarrow> real" where
  "pressurePa filtered =
     (let voltage = filtered * (5.0 / 1023.0)
      in (voltage / 0.45) * 1000.0)"

text \<open>
  \<open>sqrt\<close> of \<open>math.h\<close> returns NaN on a negative argument; that result is \<open>None\<close>.
\<close>

definition c_sqrt :: "real \<Rightarrow> real option" where
  "c_sqrt x = (if x < 0 then None else Some (sqrt x))"

text \<open>Lines 97-100: the flow rate, zero unless the pressure is positive.\<close>

definition flowRate :: "real \<Rightarrow> real option" where
  "flowRate filtered =
     (if pressurePa filtered > 0
      then map_option (\<lambda>r. k_constant * r) (c_sqrt (pressurePa filtered / 1000.0))
      else Some 0)"

text \<open>Lines 103-107: breath start, stop-timer restart and peak tracking.\<close>

definition breath_start :: "inputs \<Rightarrow> real \<Rightarrow> state \<Rightarrow> state" where
  "breath_start i fr s =
     (if fr > START_THRESHOLD
      then s\<lparr> isBreathing := True,
              breathStopTimer := t_start i,
              peakFlow := (if fr > peakFlow s then fr else peakFlow s) \<rparr>
      else s)"

text \<open>Lines 109-118: trapezoidal volume integration, then \<open>previousFlow = flowRate\<close>.\<close>

definition instantVol :: "real \<Rightarrow> real \<Rightarrow> real \<Rightarrow> real" where
  "instantVol fr prev dt =
     (let averageFlow = (fr + prev) / 2.0
      in (averageFlow / 60.0) * dt)"

definition integrate :: "real \<Rightarrow> real \<Rightarrow> state \<Rightarrow> state" where
  "integrate fr dt s =
     (let s' = (if isBreathing s \<and> fr > CUTOFF_THRESHOLD
                then s\<lparr> currentVol := currentVol s + instantVol fr (previousFlow s) dt * VOLUME_SCALER \<rparr>
                else s)
      in s'\<lparr> previousFlow := fr \<rparr>)"

text \<open>
  The wait loop of \<open>showResultsWindow\<close> (line 201) spins while the button reads HIGH.
  It returns at the first LOW; when every poll of the given sequence reads HIGH the
  loop has not returned, which is \<open>None\<close>.
\<close>

fun await_button :: "bool list \<Rightarrow> unit option" where
  "await_button [] = None"
| "await_button (high # polls) = (if high then await_button polls else Some ())"

text \<open>
  Lines 169-211: the result screen with \<open>peakFlow\<close> and \<open>currentVol\<close> is drawn first
  (lines 170-199); then comes the wait for the button (line 201). When the wait returns,
  the tick clock is restarted and the filter and the previous flow are cleared; when it
  never returns there is no state after the call, which is \<open>None\<close>.
\<close>

definition showResultsWindow :: "inputs \<Rightarrow> state \<Rightarrow> display_event \<times> state option" where
  "showResultsWindow i s =
     (Result (peakFlow s) (currentVol s),
      case await_button (button i) of
        None \<Rightarrow> None
      | Some _ \<Rightarrow>
          Some (s\<lparr> previousMillis := t_reset i, filteredValue := 0, previousFlow := 0 \<rparr>))"

text \<open>Lines 121-134: the stop logic.\<close>

definition stop_logic :: "inputs \<Rightarrow> real \<Rightarrow> state \<Rightarrow> fault + (state \<times> display_event list)" where
  "stop_logic i fr s =
     (if isBreathing s \<and> fr \<le> CUTOFF_THRESHOLD \<and> t_stop i - breathStopTimer s > BREATH_TIMEOUT
      then (case showResultsWindow i s of
              (ev, None) \<Rightarrow> Inl (Blocked [ev])
            | (ev, Some s') \<Rightarrow>
                Inr (s'\<lparr> isBreathing := False, currentVol := 0, peakFlow := 0,
                         filteredValue := 0, previousFlow := 0 \<rparr>, [ev]))
      else Inr (s, []))"

text \<open>
  Lines 137-140 and 143-167: the live screen, redrawn when more than 150 ms have passed
  since the last redraw. It prints the flow and \<open>currentVol\<close> (the bar graph is left
  out).
\<close>

definition updateLiveScreen :: "real \<Rightarrow> state \<Rightarrow> display_event" where
  "updateLiveScreen fl s = Live fl (currentVol s)"

definition update_screen :: "inputs \<Rightarrow> real \<Rightarrow> state \<Rightarrow> state \<times> display_event list" where
  "update_screen i fr s =
     (if t_disp i - lastDisplayTime s > 150
      then (s\<lparr> lastDisplayTime := t_drawn i \<rparr>, [updateLiveScreen fr s])
      else (s, []))"

text \<open>The whole of \<open>loop()\<close>, lines 73-141.\<close>

definition loop :: "inputs \<Rightarrow> state \<Rightarrow> fault + tick_out" where
  "loop i s =
     (let currentMillis = t_loop i;
          dt = real (unat (currentMillis - previousMillis s)) / 1000.0;
          s1 = s\<lparr> previousMillis := currentMillis \<rparr>;
          rawValue = real_of_int (raw i);
          adjustedValue = deadzone rawValue (sensorOffset s1);
          s2 = s1\<lparr> filteredValue := smooth (filteredValue s1) adjustedValue \<rparr>
      in case flowRate (filteredValue s2) of
           None \<Rightarrow> Inl NaN_flow
         | Some fr \<Rightarrow>
             (case stop_logic i fr (integrate fr dt (breath_start i fr s2)) of
                Inl f \<Rightarrow> Inl f
              | Inr (s3, evs) \<Rightarrow>
                  (let (s4, live) = update_screen i fr s3
                   in Inr \<lparr> nxt = s4, flow = fr, shown = evs @ live \<rparr>)))"

text \<open>Successive calls of the loop; the outcomes of all passes are collected in order.\<close>

fun run :: "state \<Rightarrow> inputs list \<Rightarrow> fault + tick_out list" where
  "run s [] = Inr []"
| "run s (i # is) =
     (case loop i s of
        Inl f \<Rightarrow> Inl f
      | Inr out \<Rightarrow>
          (case run (nxt out) is of
             Inl f \<Rightarrow> Inl f
           | Inr outs \<Rightarrow> Inr (out # outs)))"

text \<open>The state in which a sequence of passes, given by its outcomes, leaves the globals.\<close>

definition final :: "state \<Rightarrow> tick_out list \<Rightarrow> state" where
  "final s outs = (if outs = [] then s else nxt (last outs))"

text \<open>The states the sketch can be in at the top of the loop.\<close>

inductive reachable :: "state \<Rightarrow> bool" where
  start: "setup_board display_begin analogRead t0 = Some s \<Longrightarrow> reachable s"
| step: "reachable s \<Longrightarrow> loop i s = Inr out \<Longrightarrow> reachable (nxt out)"

subsection \<open>Derived notions used in the statements\<close>

text \<open>The flow rate as a total function: the value \<open>flowRate\<close> returns.\<close>

definition flow_of :: "real \<Rightarrow> real" where
  "flow_of filtered =
     (if pressurePa filtered > 0 then k_constant * sqrt (pressurePa filtered / 1000.0) else 0)"

text \<open>The smoothed value that a pass computes at line 91 from the sample it reads.\<close>

definition filtered_now :: "inputs \<Rightarrow> state \<Rightarrow> real" where
  "filtered_now i s = smooth (filteredValue s) (deadzone (real_of_int (raw i)) (sensorOffset s))"

text \<open>The elapsed time in seconds that a pass computes at line 76.\<close>

definition dt_now :: "inputs \<Rightarrow> state \<Rightarrow> real" where
  "dt_now i s = real (unat (t_loop i - previousMillis s)) / 1000.0"

text \<open>The pass enters the innermost branch of the stop logic (lines 125-131).\<close>

definition ends :: "inputs \<Rightarrow> state \<Rightarrow> bool" where
  "ends i s \<longleftrightarrow>
     isBreathing s \<and> flow_of (filtered_now i s) \<le> CUTOFF_THRESHOLD \<and>
     t_stop i - breathStopTimer s > BREATH_TIMEOUT"

text \<open>The finalized-breath summaries among the screens a pass has shown.\<close>

definition results :: "display_event list \<Rightarrow> display_event list" where
  "results evs = filter is_Result evs"

text \<open>
  The breath summaries shown in the course of a run, and the number of passes of a
  run, started in state \<open>s\<close>, that take the state from Breathing to Idle.
\<close>

fun to_idle :: "state \<Rightarrow> tick_out list \<Rightarrow> nat" where
  "to_idle s [] = 0"
| "to_idle s (x # xs) =
     (if isBreathing s \<and> \<not> isBreathing (nxt x) then 1 else 0) + to_idle (nxt x) xs"

definition summaries :: "tick_out list \<Rightarrow> display_event list" where
  "summaries outs = concat (map (\<lambda>x. results (shown x)) outs)"

text \<open>
  The session without the display bookkeeping, the clock readings and samples of a
  pass without its two display readings, and what two outcomes have in common when
  they differ at most in the display bookkeeping and in the live screens shown.
\<close>

definition core :: "state \<Rightarrow> state" where
  "core s = s\<lparr> lastDisplayTime := 0 \<rparr>"

definition same_readings :: "inputs \<Rightarrow> inputs \<Rightarrow> bool" where
  "same_readings i i' \<longleftrightarrow>
     raw i = raw i' \<and> t_loop i = t_loop i' \<and> t_start i = t_start i' \<and>
     t_stop i = t_stop i' \<and> t_reset i = t_reset i' \<and> button i = button i'"

definition same_outcome :: "tick_out \<Rightarrow> tick_out \<Rightarrow> bool" where
  "same_outcome x y \<longleftrightarrow>
     flow x = flow y \<and> core (nxt x) = core (nxt y) \<and> results (shown x) = results (shown y)"

subsection \<open>The conversion chain as the specification words it\<close>

definition spec_pressure :: "real \<Rightarrow> real \<Rightarrow> real \<Rightarrow> real \<Rightarrow> real" where
  "spec_pressure Vref ADC_MAX SENSOR_SENSITIVITY filtered =
     (let voltage = filtered * (Vref / ADC_MAX)
      in (voltage / SENSOR_SENSITIVITY) * 1000)"

definition spec_flow :: "real \<Rightarrow> real \<Rightarrow> real \<Rightarrow> real \<Rightarrow> real \<Rightarrow> real" where
  "spec_flow K Vref ADC_MAX SENSOR_SENSITIVITY filtered =
     (let pressure_Pa = spec_pressure Vref ADC_MAX SENSOR_SENSITIVITY filtered
      in if pressure_Pa > 0 then K * sqrt (pressure_Pa / 1000) else 0)"

subsection \<open>Concrete passes used in the evaluated examples\<close>

text \<open>
  A pass in which the clock does not advance: every \<open>millis()\<close> call of the pass
  returns \<open>t\<close>, the sample is \<open>r\<close>; should the result screen come up, the button
  reads HIGH once and then LOW, and the clock stands at \<open>t + 2000\<close> afterwards.
\<close>

definition tick_at :: "32 word \<Rightarrow> int \<Rightarrow> inputs" where
  "tick_at t r = \<lparr> t_loop = t, raw = r, t_start = t, t_stop = t, button = [True, False],
                  t_reset = t + 2000, t_disp = t, t_drawn = t \<rparr>"

text \<open>
  A board calibrated in still air at an ADC reading of 500 (the state in which
  \<open>setup()\<close> leaves it when all fifty samples are 500 and the clock reads 0), its
  first pass with a sample of 506 at 100 ms, and one breath on it: that pass, then 25
  passes with samples at the baseline, 60 ms apart. The smoothed value decays by the
  factor 0.9 per pass; the flow stays above the start threshold up to the pass at
  760 ms and above the cutoff threshold up to the last pass at 1600 ms.
\<close>

definition calibrated :: state where
  "calibrated =
     \<lparr> sensorOffset = 500, filteredValue = 0, previousMillis = 0, lastDisplayTime = 0,
       breathStopTimer = 0, currentVol = 0, peakFlow = 0, previousFlow = 0,
       isBreathing = False \<rparr>"

definition out_506 :: tick_out where
  "out_506 =
     \<lparr> nxt = \<lparr> sensorOffset = 500, filteredValue = 3 / 5, previousMillis = 100,
               lastDisplayTime = 0, breathStopTimer = 100,
               currentVol = instantVol (flow_of (3 / 5)) 0 (1 / 10) * VOLUME_SCALER,
               peakFlow = flow_of (3 / 5), previousFlow = flow_of (3 / 5),
               isBreathing = True \<rparr>,
       flow = flow_of (3 / 5), shown = [] \<rparr>"

definition exhale :: "inputs list" where
  "exhale = tick_at 100 506 # map (\<lambda>t. tick_at t 500)
     [160, 220, 280, 340, 400, 460, 520, 580, 640, 700, 760, 820, 880, 940, 1000,
      1060, 1120, 1180, 1240, 1300, 1360, 1420, 1480, 1540, 1600]"

text \<open>
  Three further passes. \<open>late_stop\<close> starts at 1760 ms like \<open>tick_at 1760 500\<close>, but
  its stop check reads the clock one millisecond later, and the later readings follow
  the button wait. In \<open>never_released\<close> the button reads HIGH at every poll. In
  \<open>redrawn\<close> the display check comes 300 ms after the start of the pass.
\<close>

definition late_stop :: inputs where
  "late_stop = \<lparr> t_loop = 1760, raw = 500, t_start = 1760, t_stop = 1761, button = [True, False],
                 t_reset = 3761, t_disp = 3761, t_drawn = 3762 \<rparr>"

definition never_released :: inputs where
  "never_released = \<lparr> t_loop = 1800, raw = 500, t_start = 1800, t_stop = 1800, button = [True, True],
                 t_reset = 1800, t_disp = 1800, t_drawn = 1800 \<rparr>"

definition redrawn :: inputs where
  "redrawn = \<lparr> t_loop = 100, raw = 506, t_start = 100, t_stop = 100, button = [True, False],
               t_reset = 2100, t_disp = 400, t_drawn = 401 \<rparr>"

text \<open>The state in which that breath leaves the board, before the next pass.\<close>

definition exhaled :: state where
  "exhaled = final calibrated (projr (run calibrated exhale))"

section \<open>Basic facts\<close>

subsection \<open>Pressure and flow\<close>

lemma pressurePa_pos_iff: "0 < pressurePa f \<longleftrightarrow> 0 < f"
  by (simp add: pressurePa_def Let_def zero_less_mult_iff zero_less_divide_iff)

lemma pressurePa_nonneg_iff: "0 \<le> pressurePa f \<longleftrightarrow> 0 \<le> f"
  by (simp add: pressurePa_def Let_def zero_le_mult_iff zero_le_divide_iff)

lemma flowRate_total: "flowRate f = Some (flow_of f)"
  by (simp add: flowRate_def flow_of_def c_sqrt_def)

lemma flow_of_nonneg: "0 \<le> flow_of f"
  by (simp add: flow_of_def k_constant_def pressurePa_pos_iff pressurePa_nonneg_iff)

lemma flow_of_nonpos: "f \<le> 0 \<Longrightarrow> flow_of f = 0"
  by (simp add: flow_of_def pressurePa_pos_iff)

lemma flow_of_pos_iff: "0 < flow_of f \<longleftrightarrow> 0 < f"
  by (simp add: flow_of_def pressurePa_pos_iff k_constant_def)

lemma flow_of_zero_iff: "flow_of f = 0 \<longleftrightarrow> f \<le> 0"
  using flow_of_pos_iff [of f] flow_of_nonneg [of f] by linarith

lemma flow_of_sq: "0 \<le> f \<Longrightarrow> (flow_of f)\<^sup>2 = f * (775 / 33)"
  by (simp add: flow_of_def pressurePa_pos_iff k_constant_def pressurePa_def
      power_mult_distrib power_divide)

lemma flow_of_less_iff: "0 \<le> c \<Longrightarrow> c < flow_of f \<longleftrightarrow> c\<^sup>2 * (33 / 775) < f"
proof (cases "0 \<le> f")
  case True
  assume c: "0 \<le> c"
  have "c < flow_of f \<longleftrightarrow> c\<^sup>2 < (flow_of f)\<^sup>2"
    using c flow_of_nonneg [of f] by (metis power2_less_imp_less power_strict_mono pos2 not_less)
  then show ?thesis using True by (simp add: flow_of_sq)
next
  case False
  assume c: "0 \<le> c"
  have "0 \<le> c\<^sup>2 * (33 / 775)" by simp
  then have "\<not> c\<^sup>2 * (33 / 775) < f" using False by linarith
  moreover have "\<not> c < flow_of f" using False c by (simp add: flow_of_nonpos)
  ultimately show ?thesis by simp
qed

lemma flow_gt_START: "START_THRESHOLD < flow_of f \<longleftrightarrow> 132 / 775 < f"
  by (simp add: flow_of_less_iff START_THRESHOLD_def)

lemma flow_gt_CUTOFF: "CUTOFF_THRESHOLD < flow_of f \<longleftrightarrow> 33 / 775 < f"
  by (simp add: flow_of_less_iff CUTOFF_THRESHOLD_def)

lemma flow_of_less_flow_of: "flow_of a < flow_of b \<longleftrightarrow> a < b \<and> 0 < b"
  using flow_of_less_iff [of "flow_of a" b] flow_of_nonneg [of a] flow_of_sq [of a]
    flow_of_nonpos [of a] flow_of_pos_iff [of b]
  by (cases "0 \<le> a") auto


subsection \<open>Conditioning\<close>

lemma deadzone_nonneg: "0 \<le> deadzone r off"
  by (simp add: deadzone_def Let_def)

lemma smooth_nonneg: "0 \<le> f \<Longrightarrow> 0 \<le> a \<Longrightarrow> 0 \<le> smooth f a"
  by (simp add: smooth_def alpha_def)

subsection \<open>One pass of the loop\<close>

lemma await_button_iff: "await_button polls = Some () \<longleftrightarrow> False \<in> set polls"
  by (induction polls) auto

lemma await_button_None_iff: "await_button polls = None \<longleftrightarrow> False \<notin> set polls"
  by (induction polls) auto

lemma start_above_cutoff: "START_THRESHOLD < fr \<Longrightarrow> CUTOFF_THRESHOLD < fr"
  by (simp add: CUTOFF_THRESHOLD_def START_THRESHOLD_def)

lemma stop_guard:
  "isBreathing (integrate fr dt (breath_start i fr s)) \<and> fr \<le> CUTOFF_THRESHOLD \<and>
     BREATH_TIMEOUT < t_stop i - breathStopTimer (integrate fr dt (breath_start i fr s))
   \<longleftrightarrow> isBreathing s \<and> fr \<le> CUTOFF_THRESHOLD \<and> BREATH_TIMEOUT < t_stop i - breathStopTimer s"
  by (auto simp: integrate_def breath_start_def Let_def dest: start_above_cutoff)

lemma loop_unfold:
  "loop i s =
     (case stop_logic i (flow_of (filtered_now i s))
             (integrate (flow_of (filtered_now i s)) (dt_now i s)
               (breath_start i (flow_of (filtered_now i s))
                 (s\<lparr> previousMillis := t_loop i, filteredValue := filtered_now i s \<rparr>))) of
        Inl f \<Rightarrow> Inl f
      | Inr (s3, evs) \<Rightarrow>
          Inr \<lparr> nxt = fst (update_screen i (flow_of (filtered_now i s)) s3),
                flow = flow_of (filtered_now i s),
                shown = evs @ snd (update_screen i (flow_of (filtered_now i s)) s3) \<rparr>)"
  by (auto simp: loop_def flowRate_total filtered_now_def dt_now_def Let_def split_beta
      split: sum.splits)

lemma loop_flow: "loop i s = Inr out \<Longrightarrow> flow out = flow_of (filtered_now i s)"
  by (auto simp: loop_unfold split: sum.splits)

lemma loop_blocked:
  "loop i s = Inl f \<longleftrightarrow>
     f = Blocked [Result (peakFlow s) (currentVol s)] \<and> ends i s \<and> False \<notin> set (button i)"
  unfolding loop_unfold stop_logic_def stop_guard showResultsWindow_def
  by (auto simp: ends_def await_button_None_iff await_button_iff integrate_def breath_start_def
      Let_def split: sum.splits option.splits if_splits dest: start_above_cutoff)

lemma loop_returns:
  "\<not> ends i s \<or> False \<in> set (button i) \<Longrightarrow> \<exists>out. loop i s = Inr out"
  by (cases "loop i s") (auto simp: loop_blocked)

lemma results_update_screen [simp]: "results (snd (update_screen i fr s)) = []"
  by (simp add: update_screen_def results_def updateLiveScreen_def)

lemma loop_ends:
  assumes "loop i s = Inr out" and "ends i s"
  shows "isBreathing (nxt out) = False" "currentVol (nxt out) = 0" "peakFlow (nxt out) = 0"
    "filteredValue (nxt out) = 0" "previousFlow (nxt out) = 0"
    "results (shown out) = [Result (peakFlow s) (currentVol s)]"
    "breathStopTimer (nxt out) = breathStopTimer s" "sensorOffset (nxt out) = sensorOffset s"
    "previousMillis (nxt out) = t_reset i"
  using assms unfolding loop_unfold stop_logic_def stop_guard showResultsWindow_def ends_def
  by (auto simp: update_screen_def integrate_def breath_start_def results_def updateLiveScreen_def Let_def
      split: sum.splits option.splits if_splits dest: start_above_cutoff)

lemma loop_goes_on:
  assumes "loop i s = Inr out" and "\<not> ends i s"
  shows "isBreathing (nxt out) = (isBreathing s \<or> START_THRESHOLD < flow out)"
    "currentVol (nxt out) = currentVol s +
       (if (isBreathing s \<or> START_THRESHOLD < flow out) \<and> CUTOFF_THRESHOLD < flow out
        then instantVol (flow out) (previousFlow s) (dt_now i s) * VOLUME_SCALER else 0)"
    "peakFlow (nxt out) =
       (if START_THRESHOLD < flow out \<and> peakFlow s < flow out then flow out else peakFlow s)"
    "filteredValue (nxt out) = filtered_now i s" "previousFlow (nxt out) = flow out"
    "results (shown out) = []"
    "breathStopTimer (nxt out) = (if START_THRESHOLD < flow out then t_start i else breathStopTimer s)"
    "sensorOffset (nxt out) = sensorOffset s"
    "previousMillis (nxt out) = t_loop i"
  using assms unfolding loop_unfold stop_logic_def stop_guard showResultsWindow_def ends_def
  by (auto simp: update_screen_def integrate_def breath_start_def results_def updateLiveScreen_def Let_def
      split: sum.splits option.splits if_splits dest: start_above_cutoff)

lemma loop_display:
  assumes "loop i s = Inr out"
  shows "lastDisplayTime (nxt out) =
    (if 150 < t_disp i - lastDisplayTime s then t_drawn i else lastDisplayTime s)"
  using assms unfolding loop_unfold stop_logic_def stop_guard showResultsWindow_def
  by (auto simp: update_screen_def integrate_def breath_start_def Let_def
      split: sum.splits option.splits if_splits)

lemma flow_of_mono: "a \<le> b \<Longrightarrow> flow_of a \<le> flow_of b"
  using flow_of_less_flow_of [of b a] by auto

subsection \<open>Calibration\<close>

lemma fold_total: "fold (\<lambda>i total. total + g i) [0..<n] a = a + sum g {..<n}"
  by (induction n arbitrary: a) (simp_all add: algebra_simps)

lemma setup_calibrated: "setup_board True (\<lambda>_. 500) 0 = Some calibrated"
  by (simp add: setup_board_def fold_total calibrated_def)

subsection \<open>Invariants of the reachable states\<close>

lemma instantVol_nonneg: "0 \<le> fr \<Longrightarrow> 0 \<le> prev \<Longrightarrow> 0 \<le> dt \<Longrightarrow> 0 \<le> instantVol fr prev dt * VOLUME_SCALER"
  by (simp add: instantVol_def VOLUME_SCALER_def)

lemma dt_now_nonneg: "0 \<le> dt_now i s"
  by (simp add: dt_now_def del: of_nat_unat)

lemma filtered_now_nonneg: "0 \<le> filteredValue s \<Longrightarrow> 0 \<le> filtered_now i s"
  by (simp add: filtered_now_def smooth_nonneg deadzone_nonneg)

lemma setup_fields:
  assumes "setup_board display_begin analogRead t0 = Some s"
  shows "filteredValue s = 0" "currentVol s = 0" "previousFlow s = 0" "peakFlow s = 0"
    "isBreathing s = False"
  using assms by (auto simp: setup_board_def Let_def split: if_splits)

lemma reachable_inv:
  "reachable s \<Longrightarrow>
     0 \<le> filteredValue s \<and> 0 \<le> currentVol s \<and> previousFlow s = flow_of (filteredValue s)"
proof (induction rule: reachable.induct)
  case (start display_begin analogRead t0 s)
  then show ?case by (simp add: setup_fields flow_of_nonpos)
next
  case (step s i out)
  show ?case
  proof (cases "ends i s")
    case True
    with step.hyps(2) show ?thesis by (simp add: loop_ends flow_of_nonpos)
  next
    case False
    have "0 \<le> instantVol (flow out) (previousFlow s) (dt_now i s) * VOLUME_SCALER"
      using step.IH step.hyps(2)
      by (intro instantVol_nonneg) (simp_all add: loop_flow flow_of_nonneg dt_now_nonneg)
    with False step.hyps(2) step.IH show ?thesis
      by (simp add: loop_goes_on filtered_now_nonneg) (simp add: loop_flow)
  qed
qed

subsection \<open>Runs, and passes whose sample lies in the deadzone\<close>

lemma run_append:
  "run s (xs @ ys) =
     (case run s xs of
        Inl f \<Rightarrow> Inl f
      | Inr outs \<Rightarrow>
          (case run (final s outs) ys of Inl f \<Rightarrow> Inl f | Inr outs' \<Rightarrow> Inr (outs @ outs')))"
proof (induction xs arbitrary: s)
  case Nil
  show ?case by (simp add: final_def split: sum.splits)
next
  case (Cons x xs)
  show ?case
  proof (cases "loop x s")
    case (Inl f)
    then show ?thesis by simp
  next
    case (Inr out)
    then show ?thesis
      by (cases "run (nxt out) xs") (auto simp: Cons.IH final_def split: sum.splits)
  qed
qed

lemma run_length: "run s is = Inr outs \<Longrightarrow> length outs = length is"
  by (induction "is" arbitrary: s outs) (auto split: sum.splits)

lemma final_Nil [simp]: "final s [] = s"
  by (simp add: final_def)

lemma final_Cons [simp]: "final s (out # outs) = final (nxt out) outs"
  by (simp add: final_def)

lemma final_append: "final s (outs @ outs') = final (final s outs) outs'"
  by (induction outs arbitrary: s) simp_all

lemma reachable_run: "reachable s \<Longrightarrow> run s is = Inr outs \<Longrightarrow> reachable (final s outs)"
proof (induction "is" arbitrary: s outs)
  case Nil
  then show ?case by simp
next
  case (Cons i "is")
  from Cons.prems(2) obtain out outs' where l: "loop i s = Inr out"
    and r: "run (nxt out) is = Inr outs'" and o: "outs = out # outs'"
    by (auto split: sum.splits)
  from Cons.prems(1) l have "reachable (nxt out)" by (rule reachable.step)
  then show ?case using Cons.IH r o by simp
qed

lemma calibrated_eq: "calibrated = \<lparr> sensorOffset = 500,
           filteredValue = 0, previousMillis = 0, lastDisplayTime = 0, breathStopTimer = 0,
           currentVol = 0, peakFlow = 0, previousFlow = 0, isBreathing = False \<rparr>"
  by (simp add: calibrated_def)

lemma filtered_now_quiet:
  "real_of_int (raw i) - sensorOffset s < 5.4 \<Longrightarrow> filtered_now i s = filteredValue s * (9 / 10)"
  by (simp add: filtered_now_def deadzone_def smooth_def alpha_def)

lemma quiet_pass:
  assumes r: "reachable s" and b: "isBreathing s"
    and q: "real_of_int (raw i) - sensorOffset s < 5.4"
    and c: "33 / 775 < filteredValue s * (9 / 10)"
  shows "\<exists>out. loop i s = Inr out \<and> isBreathing (nxt out) \<and>
     filteredValue (nxt out) = filteredValue s * (9 / 10) \<and>
     sensorOffset (nxt out) = sensorOffset s \<and>
     currentVol s \<le> currentVol (nxt out) \<and>
     peakFlow s \<le> peakFlow (nxt out) \<and>
     CUTOFF_THRESHOLD < flow out \<and>
     flow out = flow_of (filteredValue s * (9 / 10)) \<and>
     breathStopTimer (nxt out) =
       (if 132 / 775 < filteredValue s * (9 / 10) then t_start i else breathStopTimer s) \<and>
     previousMillis (nxt out) = t_loop i"
proof -
  have f: "flow_of (filtered_now i s) > CUTOFF_THRESHOLD"
    using c by (simp add: filtered_now_quiet [OF q] flow_gt_CUTOFF)
  then have ne: "\<not> ends i s" by (simp add: ends_def)
  then obtain out where l: "loop i s = Inr out" using loop_returns by blast
  have fl: "flow out = flow_of (filteredValue s * (9 / 10))"
    using loop_flow [OF l] by (simp add: filtered_now_quiet [OF q])
  have "0 \<le> instantVol (flow out) (previousFlow s) (dt_now i s) * VOLUME_SCALER"
    using reachable_inv [OF r]
    by (intro instantVol_nonneg) (simp_all add: fl flow_of_nonneg dt_now_nonneg)
  then show ?thesis
    using l loop_goes_on [OF l ne] f b
    by (simp add: filtered_now_quiet [OF q]) (simp add: fl flow_gt_START)
qed

lemma decay_le: "0 \<le> f \<Longrightarrow> f * (9 / 10) ^ Suc n \<le> f * (9 / 10)" for f :: real
proof -
  assume f: "0 \<le> f"
  have "(9 / 10 :: real) ^ n \<le> 1" by (simp add: power_le_one)
  then have "(9 / 10 :: real) ^ Suc n \<le> 9 / 10" by simp
  then show ?thesis using f by (rule mult_left_mono)
qed

lemma quiet_run:
  assumes "reachable s" and "isBreathing s"
    and "\<forall>i\<in>set is. real_of_int (raw i) - sensorOffset s < 5.4"
    and "33 / 775 < filteredValue s * (9 / 10) ^ length is"
  shows "\<exists>outs. run s is = Inr outs \<and> isBreathing (final s outs) \<and>
     filteredValue (final s outs) = filteredValue s * (9 / 10) ^ length is \<and>
     sensorOffset (final s outs) = sensorOffset s \<and>
     currentVol s \<le> currentVol (final s outs) \<and>
     peakFlow s \<le> peakFlow (final s outs) \<and>
     previousMillis (final s outs) = (if is = [] then previousMillis s else t_loop (last is)) \<and>
     (\<forall>out\<in>set outs. CUTOFF_THRESHOLD < flow out \<and> isBreathing (nxt out)) \<and>
     (\<forall>m<length is. flow (outs ! m) = flow_of (filteredValue s * (9 / 10) ^ Suc m)) \<and>
     (filteredValue s * (9 / 10) \<le> 132 / 775 \<longrightarrow>
        breathStopTimer (final s outs) = breathStopTimer s) \<and>
     (132 / 775 < filteredValue s * (9 / 10) ^ length is \<longrightarrow>
        breathStopTimer (final s outs) = (if is = [] then breathStopTimer s else t_start (last is)))"
  using assms
proof (induction "is" arbitrary: s)
  case Nil
  then show ?case by simp
next
  case (Cons i "is")
  have f0: "0 \<le> filteredValue s" using reachable_inv [OF Cons.prems(1)] by simp
  have le: "filteredValue s * (9 / 10) ^ Suc (length is) \<le> filteredValue s * (9 / 10)"
    using f0 by (rule decay_le)
  have c: "33 / 775 < filteredValue s * (9 / 10)"
    using Cons.prems(4) le by simp
  from quiet_pass [OF Cons.prems(1,2) _ c, of i] Cons.prems(3)
  obtain out where l: "loop i s = Inr out" and b: "isBreathing (nxt out)"
    and fv: "filteredValue (nxt out) = filteredValue s * (9 / 10)"
    and so: "sensorOffset (nxt out) = sensorOffset s"
    and cv: "currentVol s \<le> currentVol (nxt out)"
    and pk: "peakFlow s \<le> peakFlow (nxt out)"
    and fl: "CUTOFF_THRESHOLD < flow out"
    and fo: "flow out = flow_of (filteredValue s * (9 / 10))"
    and bt: "breathStopTimer (nxt out) =
       (if 132 / 775 < filteredValue s * (9 / 10) then t_start i else breathStopTimer s)"
    and pm: "previousMillis (nxt out) = t_loop i"
    by auto
  have r': "reachable (nxt out)" using Cons.prems(1) l by (rule reachable.step)
  have q': "\<forall>i\<in>set is. real_of_int (raw i) - sensorOffset (nxt out) < 5.4"
    using Cons.prems(3) so by simp
  have c': "33 / 775 < filteredValue (nxt out) * (9 / 10) ^ length is"
    using Cons.prems(4) by (simp add: fv mult.assoc)
  from Cons.IH [OF r' b q' c'] obtain outs where
    run: "run (nxt out) is = Inr outs" and b2: "isBreathing (final (nxt out) outs)"
    and fv2: "filteredValue (final (nxt out) outs) = filteredValue (nxt out) * (9 / 10) ^ length is"
    and so2: "sensorOffset (final (nxt out) outs) = sensorOffset (nxt out)"
    and cv2: "currentVol (nxt out) \<le> currentVol (final (nxt out) outs)"
    and pk2: "peakFlow (nxt out) \<le> peakFlow (final (nxt out) outs)"
    and pm2: "previousMillis (final (nxt out) outs) =
        (if is = [] then previousMillis (nxt out) else t_loop (last is))"
    and all2: "\<forall>out\<in>set outs. CUTOFF_THRESHOLD < flow out \<and> isBreathing (nxt out)"
    and fl2: "\<forall>m<length is. flow (outs ! m) = flow_of (filteredValue (nxt out) * (9 / 10) ^ Suc m)"
    and lo2: "filteredValue (nxt out) * (9 / 10) \<le> 132 / 775 \<longrightarrow>
        breathStopTimer (final (nxt out) outs) = breathStopTimer (nxt out)"
    and hi2: "132 / 775 < filteredValue (nxt out) * (9 / 10) ^ length is \<longrightarrow>
        breathStopTimer (final (nxt out) outs) =
          (if is = [] then breathStopTimer (nxt out) else t_start (last is))"
    by blast
  have f1: "0 \<le> filteredValue (nxt out)" using reachable_inv [OF r'] by simp
  have lo: "filteredValue s * (9 / 10) \<le> 132 / 775 \<longrightarrow>
        breathStopTimer (final (nxt out) outs) = breathStopTimer s"
  proof
    assume a: "filteredValue s * (9 / 10) \<le> 132 / 775"
    have "filteredValue (nxt out) * (9 / 10) \<le> filteredValue (nxt out)" using f1 by simp
    with a have "filteredValue (nxt out) * (9 / 10) \<le> 132 / 775" by (simp add: fv)
    with lo2 a bt show "breathStopTimer (final (nxt out) outs) = breathStopTimer s" by simp
  qed
  have hi: "132 / 775 < filteredValue s * (9 / 10) ^ length (i # is) \<longrightarrow>
        breathStopTimer (final (nxt out) outs) = t_start (last (i # is))"
  proof
    assume a: "132 / 775 < filteredValue s * (9 / 10) ^ length (i # is)"
    then have "132 / 775 < filteredValue (nxt out) * (9 / 10) ^ length is"
      by (simp add: fv mult.assoc)
    moreover have "132 / 775 < filteredValue s * (9 / 10)" using a le by simp
    ultimately show "breathStopTimer (final (nxt out) outs) = t_start (last (i # is))"
      using hi2 bt by simp
  qed
  have fls: "\<forall>m<length (i # is).
      flow ((out # outs) ! m) = flow_of (filteredValue s * (9 / 10) ^ Suc m)"
  proof (intro allI impI)
    fix m
    assume m: "m < length (i # is)"
    show "flow ((out # outs) ! m) = flow_of (filteredValue s * (9 / 10) ^ Suc m)"
    proof (cases m)
      case 0
      then show ?thesis using fo by simp
    next
      case (Suc m')
      then have "m' < length is" using m by simp
      with fl2 show ?thesis by (simp add: Suc fv mult.assoc)
    qed
  qed
  have "run s (i # is) = Inr (out # outs)" using l run by simp
  moreover have "final s (out # outs) = final (nxt out) outs" by simp
  moreover have "\<forall>x\<in>set (out # outs). CUTOFF_THRESHOLD < flow x \<and> isBreathing (nxt x)"
    using all2 fl b by simp
  moreover have "filteredValue (final (nxt out) outs) = filteredValue s * (9 / 10) ^ length (i # is)"
    by (simp add: fv2 fv mult.assoc)
  moreover have "previousMillis (final (nxt out) outs) = t_loop (last (i # is))"
    using pm pm2 by simp
  ultimately show ?case
    using b2 so so2 cv cv2 pk pk2 lo hi fls
    by (intro exI [of _ "out # outs"]) (simp del: length_Cons nth_Cons_Suc power_Suc)
qed

subsection \<open>Evaluating a pass on concrete inputs\<close>

lemmas loop_eval = flow_of_pos_iff loop_def deadzone_def smooth_def alpha_def flowRate_total
     breath_start_def integrate_def stop_logic_def update_screen_def showResultsWindow_def updateLiveScreen_def
     flow_gt_START flow_gt_CUTOFF flow_of_less_flow_of BREATH_TIMEOUT_def Let_def not_less[symmetric]

subsection \<open>The example breath\<close>

lemma loop_506: "loop (tick_at 100 506) calibrated = Inr out_506"
  by (simp add: calibrated_eq out_506_def loop_eval tick_at_def)

lemma reachable_calibrated: "reachable calibrated"
  using setup_calibrated by (rule reachable.start)

lemma reachable_506: "reachable (nxt out_506)"
  using reachable_calibrated loop_506 by (rule reachable.step)

lemma exhale_split:
  "exhale = [tick_at 100 506] @
     map (\<lambda>t. tick_at t 500) [160, 220, 280, 340, 400, 460, 520, 580, 640, 700, 760] @
     map (\<lambda>t. tick_at t 500)
       [820, 880, 940, 1000, 1060, 1120, 1180, 1240, 1300, 1360, 1420, 1480, 1540, 1600]"
  by (simp add: exhale_def)

lemma exhale_run:
  "\<exists>outs. run calibrated exhale = Inr outs \<and> exhaled = final calibrated outs \<and>
     (\<forall>out\<in>set outs. CUTOFF_THRESHOLD < flow out \<and> isBreathing (nxt out)) \<and>
     (\<forall>m<26. flow (outs ! m) = flow_of (3 / 5 * (9 / 10) ^ m))"
  and exhaled_facts:
  "reachable exhaled" "isBreathing exhaled" "sensorOffset exhaled = 500"
  "filteredValue exhaled = 3 / 5 * (9 / 10) ^ 25" "breathStopTimer exhaled = 760"
  "previousMillis exhaled = 1600" "0 < currentVol exhaled" "0 < peakFlow exhaled"
proof -
  let ?A = "map (\<lambda>t. tick_at t 500) [160, 220, 280, 340, 400, 460, 520, 580, 640, 700, 760 :: 32 word]"
  let ?B = "map (\<lambda>t. tick_at t 500)
       [820, 880, 940, 1000, 1060, 1120, 1180, 1240, 1300, 1360, 1420, 1480, 1540, 1600 :: 32 word]"
  let ?s1 = "nxt out_506"
  have v1: "0 < currentVol ?s1" "0 < peakFlow ?s1"
    by (simp_all add: out_506_def instantVol_def VOLUME_SCALER_def flow_of_pos_iff)
  have s1: "sensorOffset ?s1 = 500" "filteredValue ?s1 = 3 / 5" "isBreathing ?s1"
    by (simp_all add: out_506_def)
  have qA: "\<forall>i\<in>set ?A. real_of_int (raw i) - sensorOffset ?s1 < 5.4"
    by (simp add: s1 tick_at_def)
  have cA: "132 / 775 < filteredValue ?s1 * (9 / 10) ^ length ?A"
    by (simp add: s1 power_divide)
  then have cA': "33 / 775 < filteredValue ?s1 * (9 / 10) ^ length ?A" by simp
  from quiet_run [OF reachable_506 _ qA cA'] cA
  obtain outsA where rA: "run ?s1 ?A = Inr outsA" and bA: "isBreathing (final ?s1 outsA)"
    and fA: "filteredValue (final ?s1 outsA) = filteredValue ?s1 * (9 / 10) ^ length ?A"
    and sA: "sensorOffset (final ?s1 outsA) = sensorOffset ?s1"
    and vA: "currentVol ?s1 \<le> currentVol (final ?s1 outsA)"
    and pA: "peakFlow ?s1 \<le> peakFlow (final ?s1 outsA)"
    and aA: "\<forall>out\<in>set outsA. CUTOFF_THRESHOLD < flow out \<and> isBreathing (nxt out)"
    and flA: "\<forall>m<length ?A. flow (outsA ! m) = flow_of (filteredValue ?s1 * (9 / 10) ^ Suc m)"
    and tA: "breathStopTimer (final ?s1 outsA) = t_start (last ?A)"
    using s1(3) by auto
  let ?s2 = "final ?s1 outsA"
  have r2: "reachable ?s2" using reachable_506 rA by (rule reachable_run)
  have f2: "filteredValue ?s2 = 3 / 5 * (9 / 10) ^ 11"
    unfolding fA s1 by (simp add: power_divide)
  have qB: "\<forall>i\<in>set ?B. real_of_int (raw i) - sensorOffset ?s2 < 5.4"
    by (simp add: sA s1 tick_at_def)
  have cB: "33 / 775 < filteredValue ?s2 * (9 / 10) ^ length ?B"
    by (simp add: f2 power_divide)
  have lB: "filteredValue ?s2 * (9 / 10) \<le> 132 / 775"
    by (simp add: f2 power_divide)
  from quiet_run [OF r2 bA qB cB] lB
  obtain outsB where rB: "run ?s2 ?B = Inr outsB" and bB: "isBreathing (final ?s2 outsB)"
    and fB: "filteredValue (final ?s2 outsB) = filteredValue ?s2 * (9 / 10) ^ length ?B"
    and sB: "sensorOffset (final ?s2 outsB) = sensorOffset ?s2"
    and vB: "currentVol ?s2 \<le> currentVol (final ?s2 outsB)"
    and pB: "peakFlow ?s2 \<le> peakFlow (final ?s2 outsB)"
    and mB: "previousMillis (final ?s2 outsB) = t_loop (last ?B)"
    and aB: "\<forall>out\<in>set outsB. CUTOFF_THRESHOLD < flow out \<and> isBreathing (nxt out)"
    and flB: "\<forall>m<length ?B. flow (outsB ! m) = flow_of (filteredValue ?s2 * (9 / 10) ^ Suc m)"
    and tB: "breathStopTimer (final ?s2 outsB) = breathStopTimer ?s2"
    by auto
  let ?outs = "out_506 # outsA @ outsB"
  have run1: "run calibrated [tick_at 100 506] = Inr [out_506]"
    by (simp add: loop_506)
  have "run calibrated ([tick_at 100 506] @ ?A @ ?B) = Inr ([out_506] @ outsA @ outsB)"
    by (simp only: run_append run1 rA rB final_Cons final_Nil sum.case)
  then have run: "run calibrated exhale = Inr ?outs"
    by (simp only: exhale_split append_Cons append_Nil)
  then have ex: "exhaled = final calibrated ?outs" by (simp add: exhaled_def)
  then have ex': "exhaled = final ?s2 outsB" by (simp add: final_append)
  have a1: "CUTOFF_THRESHOLD < flow out_506 \<and> isBreathing (nxt out_506)"
    by (simp add: out_506_def flow_gt_CUTOFF)
  have nA: "length outsA = 11" using run_length [OF rA] by simp
  have flows: "\<forall>m<26. flow (?outs ! m) = flow_of (3 / 5 * (9 / 10) ^ m)"
  proof (intro allI impI)
    fix m :: nat
    assume m: "m < 26"
    consider "m = 0" | "0 < m" "m \<le> 11" | "12 \<le> m" by linarith
    then show "flow (?outs ! m) = flow_of (3 / 5 * (9 / 10) ^ m)"
    proof cases
      case 1
      then show ?thesis by (simp add: out_506_def)
    next
      case 2
      then obtain m' where m': "m = Suc m'" "m' < 11" by (cases m) auto
      have "?outs ! m = outsA ! m'" using m' nA by (simp add: nth_append)
      moreover have "flow (outsA ! m') = flow_of (filteredValue ?s1 * (9 / 10) ^ Suc m')"
        using flA m' by simp
      ultimately show ?thesis by (simp add: m' s1)
    next
      case 3
      define d where "d = m - 12"
      have d: "m = 12 + d" "d < 14" using 3 m by (simp_all add: d_def)
      have "?outs ! m = outsB ! d" using nA by (simp add: d nth_append)
      moreover have "flow (outsB ! d) = flow_of (filteredValue ?s2 * (9 / 10) ^ Suc d)"
        using flB d by simp
      moreover have "filteredValue ?s2 * (9 / 10) ^ Suc d = 3 / 5 * (9 / 10 :: real) ^ (12 + d)"
        unfolding f2 by (simp add: power_add power_divide)
      ultimately show ?thesis by (simp only: d)
    qed
  qed
  show "\<exists>outs. run calibrated exhale = Inr outs \<and> exhaled = final calibrated outs \<and>
     (\<forall>out\<in>set outs. CUTOFF_THRESHOLD < flow out \<and> isBreathing (nxt out)) \<and>
     (\<forall>m<26. flow (outs ! m) = flow_of (3 / 5 * (9 / 10) ^ m))"
  proof (intro exI [of _ ?outs] conjI)
    show "run calibrated exhale = Inr ?outs" by (rule run)
    show "exhaled = final calibrated ?outs" by (rule ex)
    show "\<forall>out\<in>set ?outs. CUTOFF_THRESHOLD < flow out \<and> isBreathing (nxt out)"
      using a1 aA aB by auto
    show "\<forall>m<26. flow (?outs ! m) = flow_of (3 / 5 * (9 / 10) ^ m)" by (rule flows)
  qed
  show "reachable exhaled"
    unfolding ex using reachable_calibrated run by (rule reachable_run)
  show "isBreathing exhaled" using bB by (simp add: ex')
  show "sensorOffset exhaled = 500" using sB sA s1 by (simp add: ex')
  show "filteredValue exhaled = 3 / 5 * (9 / 10) ^ 25"
    unfolding ex' fB f2 by (simp add: power_divide)
  show "breathStopTimer exhaled = 760" using tB tA by (simp add: ex' tick_at_def)
  show "previousMillis exhaled = 1600" using mB by (simp add: ex' tick_at_def)
  show "0 < currentVol exhaled" using v1 vA vB by (simp add: ex')
  show "0 < peakFlow exhaled" using v1 pA pB by (simp add: ex')
qed

lemma ends_1800: "ends (tick_at 1800 500) exhaled"
  unfolding ends_def
  by (simp add: exhaled_facts filtered_now_quiet flow_gt_CUTOFF not_less [symmetric]
      tick_at_def BREATH_TIMEOUT_def power_divide)

lemma last_pass:
  "\<exists>out. loop (tick_at 1800 500) exhaled = Inr out \<and> flow out \<le> CUTOFF_THRESHOLD \<and>
     \<not> isBreathing (nxt out) \<and> currentVol (nxt out) = 0 \<and> peakFlow (nxt out) = 0 \<and>
     filteredValue (nxt out) = 0 \<and> previousFlow (nxt out) = 0 \<and>
     results (shown out) = [Result (peakFlow exhaled) (currentVol exhaled)]"
proof -
  have "False \<in> set (button (tick_at 1800 500))" by (simp add: tick_at_def)
  then obtain out where l: "loop (tick_at 1800 500) exhaled = Inr out"
    using loop_returns by blast
  have "flow out \<le> CUTOFF_THRESHOLD"
    using ends_1800 by (simp add: loop_flow [OF l] ends_def)
  then show ?thesis using l loop_ends [OF l ends_1800] by simp
qed

lemma loop_timer:
  assumes l: "loop i s = Inr out"
  shows "breathStopTimer (nxt out) =
        (if START_THRESHOLD < flow out then t_start i else breathStopTimer s)"
proof (cases "ends i s")
  case True
  then have "\<not> START_THRESHOLD < flow out"
    using start_above_cutoff [of "flow out"] by (auto simp: ends_def loop_flow [OF l])
  then show ?thesis using loop_ends(7) [OF l True] by simp
next
  case False
  then show ?thesis using loop_goes_on(7) [OF l False] by simp
qed

lemma loop_to_idle:
  assumes l: "loop i s = Inr out"
  shows "(isBreathing s \<and> \<not> isBreathing (nxt out)) \<longleftrightarrow>
         (isBreathing s \<and> flow out \<le> CUTOFF_THRESHOLD \<and>
          BREATH_TIMEOUT < t_stop i - breathStopTimer s)"
proof (cases "ends i s")
  case True
  then show ?thesis using loop_ends(1) [OF l True] by (simp add: ends_def loop_flow [OF l])
next
  case False
  then show ?thesis using loop_goes_on(1) [OF l False]
    by (auto simp: ends_def loop_flow [OF l])
qed

lemma final_take_Suc: "k < length outs \<Longrightarrow> final s (take (Suc k) outs) = nxt (outs ! k)"
  by (simp add: take_Suc_conv_app_nth final_append)

lemma run_nth:
  "run s is = Inr outs \<Longrightarrow> k < length is \<Longrightarrow>
     loop (is ! k) (final s (take k outs)) = Inr (outs ! k)"
proof (induction "is" arbitrary: s outs k)
  case Nil
  then show ?case by simp
next
  case (Cons i "is")
  from Cons.prems(1) obtain out outs' where l: "loop i s = Inr out"
    and r: "run (nxt out) is = Inr outs'" and o: "outs = out # outs'"
    by (auto split: sum.splits)
  show ?case
  proof (cases k)
    case 0
    then show ?thesis using l o by simp
  next
    case (Suc k')
    then have "k' < length is" using Cons.prems(2) by simp
    from Cons.IH [OF r this] show ?thesis using Suc o by simp
  qed
qed

lemma timer_kept:
  assumes r: "run s is = Inr outs" and j: "START_THRESHOLD < flow (outs ! j)"
    and q: "\<forall>m. j < m \<and> m < k \<longrightarrow> flow (outs ! m) \<le> START_THRESHOLD"
  shows "j < k \<Longrightarrow> k \<le> length is \<Longrightarrow>
     breathStopTimer (final s (take k outs)) = t_start (is ! j)"
  using q
proof (induction k)
  case 0
  then show ?case by simp
next
  case (Suc k)
  have n: "length outs = length is" using run_length [OF r] .
  have kl: "k < length is" using Suc.prems(2) by simp
  have l: "loop (is ! k) (final s (take k outs)) = Inr (outs ! k)"
    using run_nth [OF r kl] .
  have fs: "final s (take (Suc k) outs) = nxt (outs ! k)"
    using kl n by (simp add: final_take_Suc)
  show ?case
  proof (cases "j = k")
    case True
    then show ?thesis using loop_timer [OF l] j by (simp add: fs)
  next
    case False
    then have jk: "j < k" using Suc.prems(1) by simp
    have "\<forall>m. j < m \<and> m < k \<longrightarrow> flow (outs ! m) \<le> START_THRESHOLD"
      using Suc.prems(3) by simp
    from Suc.IH [OF jk _ this] kl
    have "breathStopTimer (final s (take k outs)) = t_start (is ! j)" by simp
    moreover have "\<not> START_THRESHOLD < flow (outs ! k)"
      using Suc.prems(3) jk by (simp add: not_less)
    ultimately show ?thesis using loop_timer [OF l] by (simp add: fs)
  qed
qed

lemma decayed_flow_low:
  assumes "12 \<le> m"
  shows "flow_of (3 / 5 * (9 / 10) ^ m) \<le> START_THRESHOLD"
proof -
  have "(9 / 10 :: real) ^ m \<le> (9 / 10) ^ 12"
    using assms by (intro power_decreasing) simp_all
  then have "3 / 5 * (9 / 10 :: real) ^ m \<le> 3 / 5 * (9 / 10) ^ 12" by simp
  also have "\<dots> \<le> 132 / 775" by (simp add: power_divide)
  finally have "\<not> 132 / 775 < 3 / 5 * (9 / 10 :: real) ^ m" by simp
  then show ?thesis by (simp add: flow_gt_START not_less [symmetric])
qed


subsection \<open>Counting breath summaries\<close>

lemma loop_summary:
  assumes l: "loop i s = Inr out"
  shows "length (results (shown out)) = (if isBreathing s \<and> \<not> isBreathing (nxt out) then 1 else 0)"
proof (cases "ends i s")
  case True
  then show ?thesis using loop_ends [OF l True] by (simp add: ends_def)
next
  case False
  then show ?thesis using loop_goes_on [OF l False] by simp
qed

lemma run_summaries: "run s is = Inr outs \<Longrightarrow> length (summaries outs) = to_idle s outs"
proof (induction "is" arbitrary: s outs)
  case Nil
  then show ?case by (simp add: summaries_def)
next
  case (Cons i "is")
  from Cons.prems obtain out outs' where l: "loop i s = Inr out"
    and r: "run (nxt out) is = Inr outs'" and o: "outs = out # outs'"
    by (auto split: sum.splits)
  from Cons.IH [OF r] loop_summary [OF l] show ?case
    by (simp add: o summaries_def)
qed

lemma to_idle_append: "to_idle s (xs @ ys) = to_idle s xs + to_idle (final s xs) ys"
  by (induction xs arbitrary: s) simp_all

lemma to_idle_breathing: "\<forall>x\<in>set xs. isBreathing (nxt x) \<Longrightarrow> to_idle s xs = 0"
  by (induction xs arbitrary: s) simp_all

subsection \<open>Passes that start in state Idle\<close>

lemma idle_pass:
  assumes "\<not> isBreathing s"
  shows "\<exists>out. loop i s = Inr out \<and> results (shown out) = [] \<and>
    (flow out \<le> START_THRESHOLD \<longrightarrow>
       \<not> isBreathing (nxt out) \<and> currentVol (nxt out) = currentVol s \<and>
       sensorOffset (nxt out) = sensorOffset s \<and> filteredValue (nxt out) = filtered_now i s)"
proof -
  have ne: "\<not> ends i s" using assms by (simp add: ends_def)
  then obtain out where l: "loop i s = Inr out" using loop_returns by blast
  show ?thesis using l loop_goes_on [OF l ne] assms by (auto simp: not_less [symmetric])
qed

lemma idle_run:
  assumes "\<not> isBreathing s" and "run s is = Inr outs"
    and "\<forall>x\<in>set outs. flow x \<le> START_THRESHOLD"
  shows "\<forall>x\<in>set outs. \<not> isBreathing (nxt x) \<and> results (shown x) = [] \<and>
           currentVol (nxt x) = currentVol s"
  using assms
proof (induction "is" arbitrary: s outs)
  case Nil
  then show ?case by simp
next
  case (Cons i "is")
  from Cons.prems(2) obtain out outs' where l: "loop i s = Inr out"
    and r: "run (nxt out) is = Inr outs'" and o: "outs = out # outs'"
    by (auto split: sum.splits)
  have fo: "flow out \<le> START_THRESHOLD" using Cons.prems(3) o by simp
  from idle_pass [OF Cons.prems(1), of i] l fo
  have h: "results (shown out) = []" "\<not> isBreathing (nxt out)"
    "currentVol (nxt out) = currentVol s" by auto
  have "\<forall>x\<in>set outs'. flow x \<le> START_THRESHOLD" using Cons.prems(3) o by simp
  from Cons.IH [OF h(2) r this] h show ?case by (simp add: o)
qed

lemma idle_run_returns:
  assumes "\<not> isBreathing s" and "run s is = Inl f"
  shows "\<exists>n outs. run s (take n is) = Inr outs \<and> outs \<noteq> [] \<and> START_THRESHOLD < flow (last outs)"
  using assms
proof (induction "is" arbitrary: s)
  case Nil
  then show ?case by simp
next
  case (Cons i "is")
  from idle_pass [OF Cons.prems(1), of i] obtain out where l: "loop i s = Inr out"
    and h: "flow out \<le> START_THRESHOLD \<longrightarrow> \<not> isBreathing (nxt out)" by blast
  show ?case
  proof (cases "START_THRESHOLD < flow out")
    case True
    have "run s (take 1 (i # is)) = Inr [out]" using l by simp
    then show ?thesis using True by (intro exI [of _ 1] exI [of _ "[out]"]) simp
  next
    case False
    then have nb: "\<not> isBreathing (nxt out)" using h by simp
    have "run (nxt out) is = Inl f" using Cons.prems(2) l by (simp split: sum.splits)
    from Cons.IH [OF nb this] obtain n outs where r: "run (nxt out) (take n is) = Inr outs"
      and o: "outs \<noteq> []" "START_THRESHOLD < flow (last outs)" by blast
    have "run s (take (Suc n) (i # is)) = Inr (out # outs)" using l r by simp
    then show ?thesis using o by (intro exI [of _ "Suc n"] exI [of _ "out # outs"]) simp
  qed
qed

lemma still_run:
  assumes "\<not> isBreathing s" and "filteredValue s = 0" and "currentVol s = 0"
    and "\<forall>i\<in>set is. real_of_int (raw i) - sensorOffset s < 5.4"
  shows "\<exists>outs. run s is = Inr outs \<and>
     (\<forall>x\<in>set outs. flow x = 0 \<and> \<not> isBreathing (nxt x) \<and> results (shown x) = [] \<and>
        currentVol (nxt x) = 0)"
  using assms
proof (induction "is" arbitrary: s)
  case Nil
  then show ?case by simp
next
  case (Cons i "is")
  have q: "real_of_int (raw i) - sensorOffset s < 5.4" using Cons.prems(4) by simp
  have f: "filtered_now i s = 0" using Cons.prems(2) by (simp add: filtered_now_quiet [OF q])
  from idle_pass [OF Cons.prems(1), of i] obtain out where l: "loop i s = Inr out"
    and e: "results (shown out) = []"
    and h: "flow out \<le> START_THRESHOLD \<longrightarrow>
       \<not> isBreathing (nxt out) \<and> currentVol (nxt out) = currentVol s \<and>
       sensorOffset (nxt out) = sensorOffset s \<and> filteredValue (nxt out) = filtered_now i s"
    by blast
  have fl: "flow out = 0" using loop_flow [OF l] f by (simp add: flow_of_nonpos)
  then have h': "\<not> isBreathing (nxt out)" "currentVol (nxt out) = 0"
    "sensorOffset (nxt out) = sensorOffset s" "filteredValue (nxt out) = 0"
    using h f Cons.prems(3) by (simp_all add: START_THRESHOLD_def)
  have "\<forall>i\<in>set is. real_of_int (raw i) - sensorOffset (nxt out) < 5.4"
    using Cons.prems(4) h'(3) by simp
  from Cons.IH [OF h'(1) h'(4) h'(2) this] obtain outs where r: "run (nxt out) is = Inr outs"
    and a: "\<forall>x\<in>set outs. flow x = 0 \<and> \<not> isBreathing (nxt x) \<and> results (shown x) = [] \<and>
        currentVol (nxt x) = 0" by blast
  have "run s (i # is) = Inr (out # outs)" using l r by simp
  then show ?case using a fl h' e by (intro exI [of _ "out # outs"]) simp
qed

lemma blocked_pass:
  "loop never_released exhaled = Inl (Blocked [Result (peakFlow exhaled) (currentVol exhaled)])"
proof -
  have "real_of_int (raw never_released) - sensorOffset exhaled < 5.4"
    by (simp add: never_released_def exhaled_facts)
  then have "filtered_now never_released exhaled = filteredValue exhaled * (9 / 10)"
    by (rule filtered_now_quiet)
  then have "ends never_released exhaled"
    unfolding ends_def
    by (simp add: exhaled_facts flow_gt_CUTOFF not_less [symmetric]
        never_released_def BREATH_TIMEOUT_def power_divide)
  then show ?thesis by (simp add: loop_blocked never_released_def)
qed


subsection \<open>Passes that differ in the display readings only\<close>

lemma core_eq_iff:
  "core s = core s' \<longleftrightarrow>
     sensorOffset s = sensorOffset s' \<and> filteredValue s = filteredValue s' \<and>
     previousMillis s = previousMillis s' \<and> breathStopTimer s = breathStopTimer s' \<and>
     currentVol s = currentVol s' \<and> peakFlow s = peakFlow s' \<and>
     previousFlow s = previousFlow s' \<and> isBreathing s = isBreathing s'"
  by (cases s, cases s') (auto simp: core_def)

lemma loop_core:
  assumes i: "same_readings i i'" and s: "core s = core s'"
  shows "rel_sum (=) same_outcome (loop i s) (loop i' s')"
proof -
  note f = s [unfolded core_eq_iff]
  note r = i [unfolded same_readings_def]
  have fn: "filtered_now i s = filtered_now i' s'" using f r by (simp add: filtered_now_def)
  have dt: "dt_now i s = dt_now i' s'" using f r by (simp add: dt_now_def)
  have e: "ends i s = ends i' s'" using f r fn by (simp add: ends_def)
  show ?thesis
  proof (cases "ends i s \<and> False \<notin> set (button i)")
    case True
    then have "loop i s = Inl (Blocked [Result (peakFlow s) (currentVol s)])"
      "loop i' s' = Inl (Blocked [Result (peakFlow s) (currentVol s)])"
      using e r f by (simp_all add: loop_blocked)
    then show ?thesis by simp
  next
    case False
    then obtain out where l: "loop i s = Inr out" using loop_returns by blast
    from False e r obtain out' where l': "loop i' s' = Inr out'" using loop_returns [of i' s'] by auto
    have fl: "flow out = flow out'" using loop_flow [OF l] loop_flow [OF l'] fn by simp
    have "same_outcome out out'"
    proof (cases "ends i s")
      case True
      then have e': "ends i' s'" using e by simp
      show ?thesis
        unfolding same_outcome_def core_eq_iff
        using loop_ends [OF l True] loop_ends [OF l' e'] f r fl by simp
    next
      case False
      then have e': "\<not> ends i' s'" using e by simp
      show ?thesis
        unfolding same_outcome_def core_eq_iff
        using loop_goes_on [OF l False] loop_goes_on [OF l' e'] f r fl fn dt by simp
    qed
    then show ?thesis using l l' by simp
  qed
qed

lemma run_core:
  assumes "list_all2 same_readings is is'" and "core s = core s'"
  shows "rel_sum (=) (list_all2 same_outcome) (run s is) (run s' is')"
  using assms
proof (induction "is" is' arbitrary: s s' rule: list_all2_induct)
  case Nil
  then show ?case by simp
next
  case (Cons i "is" i' is')
  have lc: "rel_sum (=) same_outcome (loop i s) (loop i' s')"
    using Cons.hyps(1) Cons.prems by (rule loop_core)
  show ?case
  proof (cases "loop i s")
    case (Inl a)
    then show ?thesis using lc by (cases "loop i' s'") simp_all
  next
    case (Inr out)
    then obtain out' where l': "loop i' s' = Inr out'" and so: "same_outcome out out'"
      using lc by (cases "loop i' s'") simp_all
    then have c: "core (nxt out) = core (nxt out')" by (simp add: same_outcome_def)
    from Cons.IH [OF c] show ?thesis
      using Inr l' so by (cases "run (nxt out) is"; cases "run (nxt out') is'") simp_all
  qed
qed

lemma late_stop_passes:
  "\<exists>a b. loop (tick_at 1760 500) exhaled = Inr a \<and> loop late_stop exhaled = Inr b \<and>
     isBreathing (nxt a) \<and> \<not> isBreathing (nxt b) \<and> flow a = flow b"
proof -
  have qa: "real_of_int (raw (tick_at 1760 500)) - sensorOffset exhaled < 5.4"
    and qb: "real_of_int (raw late_stop) - sensorOffset exhaled < 5.4"
    by (simp_all add: tick_at_def late_stop_def exhaled_facts)
  have na: "\<not> ends (tick_at 1760 500) exhaled"
    by (simp add: ends_def exhaled_facts tick_at_def BREATH_TIMEOUT_def)
  have eb: "ends late_stop exhaled"
    unfolding ends_def filtered_now_quiet [OF qb]
    by (simp add: exhaled_facts flow_gt_CUTOFF not_less [symmetric]
        late_stop_def BREATH_TIMEOUT_def power_divide)
  obtain a where la: "loop (tick_at 1760 500) exhaled = Inr a" using na loop_returns by blast
  have "False \<in> set (button late_stop)" by (simp add: late_stop_def)
  then obtain b where lb: "loop late_stop exhaled = Inr b" using loop_returns by blast
  have "flow a = flow b"
    using loop_flow [OF la] loop_flow [OF lb]
    by (simp add: filtered_now_quiet [OF qa] filtered_now_quiet [OF qb])
  moreover have "isBreathing (nxt a)" using loop_goes_on(1) [OF la na] exhaled_facts(2) by simp
  moreover have "\<not> isBreathing (nxt b)" using loop_ends(1) [OF lb eb] by simp
  ultimately show ?thesis using la lb by blast
qed

section \<open>Signal conditioning\<close>

text \<open>
  C2, as stated, fails: the deadzone forces the adjusted sample to 0, but the smoothing
  of line 91 comes after it and keeps nine tenths of the previous smoothed value. On the
  calibrated board, after one pass with a sample of 506, a pass with a baseline sample
  is in the deadzone and still computes a non-zero flow.
\<close>

theorem deadzone_flow_counterexample:
  "case run calibrated [tick_at 100 506, tick_at 160 500] of
     Inl f \<Rightarrow> False
   | Inr outs \<Rightarrow>
       real_of_int (raw (tick_at 160 500)) - sensorOffset (nxt (outs ! 0)) < 5.4 \<and>
       deadzone (real_of_int (raw (tick_at 160 500))) (sensorOffset (nxt (outs ! 0))) = 0 \<and>
       flow (outs ! 1) \<noteq> 0"
  by (simp add: loop_506)
    (simp add: out_506_def loop_eval tick_at_def flow_of_zero_iff)

text \<open>
  C2, amended: on a completed pass in which the deadzone forces the adjusted sample to
  0, the smoothed value becomes \<open>(1 - alpha)\<close> times the previous smoothed value and
  the flow of the pass is the flow rate of that value. It is never negative; it is
  exactly 0 when the previous smoothed value is 0 (or negative); otherwise it need
  not be 0, and it is never larger than the flow rate of the previous smoothed value.
\<close>

theorem deadzone_flow:
  assumes "deadzone (real_of_int (raw i)) (sensorOffset s) = 0" and "loop i s = Inr out"
  shows "filtered_now i s = filteredValue s * (1.0 - alpha) \<and>
    flowRate (filteredValue s * (1.0 - alpha)) = Some (flow out) \<and>
    0 \<le> flow out \<and>
    (filteredValue s \<le> 0 \<longrightarrow> flow out = 0) \<and>
    (0 \<le> filteredValue s \<longrightarrow> flow out \<le> flow_of (filteredValue s))"
proof -
  have f: "filtered_now i s = filteredValue s * (1.0 - alpha)"
    using assms(1) by (simp add: filtered_now_def smooth_def)
  have fl: "flow out = flow_of (filteredValue s * (9 / 10))"
    using loop_flow [OF assms(2)] f by (simp add: alpha_def)
  have z: "filteredValue s \<le> 0 \<longrightarrow> flow_of (filteredValue s * (9 / 10)) = 0"
    by (simp add: flow_of_zero_iff mult_le_0_iff)
  have m: "0 \<le> filteredValue s \<longrightarrow>
      flow_of (filteredValue s * (9 / 10)) \<le> flow_of (filteredValue s)"
    by (auto intro: flow_of_mono)
  show ?thesis
    using f fl z m flow_of_nonneg [of "filteredValue s * (9 / 10)"]
    by (simp add: flowRate_total alpha_def)
qed

theorem deadzone_flow_witness:
  "deadzone (real_of_int (raw (tick_at 100 500))) (sensorOffset calibrated) = 0 \<and>
   (\<exists>out. loop (tick_at 100 500) calibrated = Inr out \<and> filteredValue calibrated \<le> 0 \<and>
      flow out = 0) \<and>
   deadzone (real_of_int (raw (tick_at 160 500))) (sensorOffset (nxt out_506)) = 0 \<and>
   (\<exists>out. loop (tick_at 160 500) (nxt out_506) = Inr out \<and>
      0 \<le> filteredValue (nxt out_506) \<and>
      flowRate (filteredValue (nxt out_506) * (1.0 - alpha)) = Some (flow out) \<and>
      0 \<le> flow out \<and> flow out \<le> flow_of (filteredValue (nxt out_506)))"
proof -
  have q0: "deadzone (real_of_int (raw (tick_at 100 500))) (sensorOffset calibrated) = 0"
    by (simp add: tick_at_def calibrated_eq deadzone_def)
  have q1: "deadzone (real_of_int (raw (tick_at 160 500))) (sensorOffset (nxt out_506)) = 0"
    by (simp add: tick_at_def out_506_def deadzone_def)
  have b: "False \<in> set (button (tick_at t r))" for t r by (simp add: tick_at_def)
  obtain out0 where l0: "loop (tick_at 100 500) calibrated = Inr out0"
    using loop_returns b by blast
  obtain out1 where l1: "loop (tick_at 160 500) (nxt out_506) = Inr out1"
    using loop_returns b by blast
  have v: "filteredValue calibrated \<le> 0" "0 \<le> filteredValue (nxt out_506)"
    by (simp_all add: calibrated_eq out_506_def)
  have "\<exists>out. loop (tick_at 100 500) calibrated = Inr out \<and> filteredValue calibrated \<le> 0 \<and>
      flow out = 0"
    using deadzone_flow [OF q0 l0] l0 v(1) by blast
  moreover have "\<exists>out. loop (tick_at 160 500) (nxt out_506) = Inr out \<and>
      0 \<le> filteredValue (nxt out_506) \<and>
      flowRate (filteredValue (nxt out_506) * (1.0 - alpha)) = Some (flow out) \<and>
      0 \<le> flow out \<and> flow out \<le> flow_of (filteredValue (nxt out_506))"
    using deadzone_flow [OF q1 l1] l1 v(2) by blast
  ultimately show ?thesis using q0 q1 by blast
qed

text \<open>
  C10: in every reachable state the smoothed value is at least 0. The adjusted sample
  after the deadzone is never negative, so the smoothed value computed by any pass from
  a reachable state is at least 0; its pressure is at least 0, the square root is
  applied inside its domain, the zero-flow branch is taken only at pressure 0, and no
  pass produces a NaN flow.
\<close>

theorem filtered_nonneg:
  assumes "reachable s"
  shows "0 \<le> filteredValue s \<and> 0 \<le> deadzone (real_of_int (raw i)) (sensorOffset s) \<and>
    0 \<le> filtered_now i s \<and> 0 \<le> pressurePa (filtered_now i s) \<and>
    c_sqrt (pressurePa (filtered_now i s) / 1000.0) = Some (sqrt (pressurePa (filtered_now i s) / 1000.0)) \<and>
    (0 < pressurePa (filtered_now i s) \<or> pressurePa (filtered_now i s) = 0) \<and>
    loop i s \<noteq> Inl NaN_flow"
proof -
  have f: "0 \<le> filteredValue s" using reachable_inv [OF assms] by simp
  then have n: "0 \<le> filtered_now i s" by (rule filtered_now_nonneg)
  then have p: "0 \<le> pressurePa (filtered_now i s)" by (simp add: pressurePa_nonneg_iff)
  then have "c_sqrt (pressurePa (filtered_now i s) / 1000.0) =
      Some (sqrt (pressurePa (filtered_now i s) / 1000.0))"
    by (simp add: c_sqrt_def)
  moreover have "0 < pressurePa (filtered_now i s) \<or> pressurePa (filtered_now i s) = 0"
    using p by linarith
  ultimately show ?thesis using f n p deadzone_nonneg by (simp add: loop_blocked)
qed

theorem filtered_nonneg_witness:
  "reachable (nxt out_506) \<and> 0 \<le> filteredValue (nxt out_506) \<and>
   filtered_now (tick_at 160 400) (nxt out_506) = 27 / 50 \<and>
   deadzone (real_of_int (raw (tick_at 160 400))) (sensorOffset (nxt out_506)) = 0 \<and>
   0 < pressurePa (filtered_now (tick_at 160 400) (nxt out_506)) \<and>
   reachable calibrated \<and> pressurePa (filtered_now (tick_at 100 400) calibrated) = 0"
proof -
  have "filtered_now (tick_at 160 400) (nxt out_506) = 27 / 50"
    "deadzone (real_of_int (raw (tick_at 160 400))) (sensorOffset (nxt out_506)) = 0"
    "pressurePa (filtered_now (tick_at 100 400) calibrated) = 0"
    by (simp_all add: filtered_now_def out_506_def tick_at_def deadzone_def smooth_def alpha_def
        calibrated_eq pressurePa_def)
  then show ?thesis
    using filtered_nonneg [OF reachable_506, of "tick_at 160 400"]
      filtered_nonneg [OF reachable_calibrated, of "tick_at 100 400"]
      reachable_506 reachable_calibrated
    by (simp add: pressurePa_pos_iff)
qed

section \<open>The flow model\<close>

text \<open>
  C3: for every smoothed value the flow rate is \<open>K * sqrt (pressure_Pa / 1000)\<close> when
  \<open>pressure_Pa > 0\<close> and exactly 0 otherwise, with \<open>voltage = filtered * (Vref / ADC_MAX)\<close>,
  \<open>pressure_Pa = (voltage / SENSOR_SENSITIVITY) * 1000\<close>, \<open>K = 46.5\<close>, \<open>Vref = 5.0\<close>,
  \<open>ADC_MAX = 1023\<close> and sensitivity 0.45. The flow is never negative; a non-positive
  pressure gives the flow 0; the square root is never taken outside its domain, so
  neither \<open>flowRate\<close> nor a pass of the loop produces the NaN result.
\<close>

theorem flowRate_conversion:
  "flowRate filtered = Some (spec_flow 46.5 5.0 1023 0.45 filtered) \<and>
   0 \<le> spec_flow 46.5 5.0 1023 0.45 filtered \<and>
   (spec_pressure 5.0 1023 0.45 filtered \<le> 0 \<longrightarrow> flowRate filtered = Some 0) \<and>
   loop i s \<noteq> Inl NaN_flow"
proof -
  have p: "spec_pressure 5.0 1023 0.45 filtered = pressurePa filtered"
    by (simp add: spec_pressure_def pressurePa_def)
  have f: "spec_flow 46.5 5.0 1023 0.45 filtered = flow_of filtered"
    unfolding spec_flow_def p by (simp add: flow_of_def k_constant_def)
  show ?thesis
    unfolding p f using flow_of_nonneg [of filtered] pressurePa_pos_iff [of filtered]
    by (auto simp: flowRate_total flow_of_def loop_blocked)
qed

theorem flowRate_conversion_witness:
  "spec_pressure 5.0 1023 0.45 (- 1) \<le> 0 \<and> flowRate (- 1) = Some 0 \<and>
   flowRate 0 = Some 0 \<and> flowRate (9207 / 100) = Some (93 / 2)"
  using flowRate_conversion [of "- 1"] flowRate_conversion [of 0]
    flowRate_conversion [of "9207 / 100"]
  by (simp add: spec_pressure_def spec_flow_def)

section \<open>Peak flow\<close>

text \<open>
  C7: within a breath the peak flow never decreases from one pass to the next, and it
  is set to 0 only at breath end. For every completed pass: when the state after the pass
  is Breathing, the peak flow has not decreased; when the peak flow has decreased, or has
  become 0 from a non-zero value, the pass took the state from Breathing to Idle (and the
  new peak is 0).
\<close>

theorem peak_monotone:
  assumes "loop i s = Inr out"
  shows "(isBreathing (nxt out) \<longrightarrow> peakFlow s \<le> peakFlow (nxt out)) \<and>
    (peakFlow (nxt out) < peakFlow s \<longrightarrow>
       isBreathing s \<and> \<not> isBreathing (nxt out) \<and> peakFlow (nxt out) = 0) \<and>
    (peakFlow (nxt out) = 0 \<and> peakFlow s \<noteq> 0 \<longrightarrow> isBreathing s \<and> \<not> isBreathing (nxt out))"
proof (cases "ends i s")
  case True
  then show ?thesis using loop_ends [OF assms True] by (simp add: ends_def)
next
  case False
  have "START_THRESHOLD < flow out \<Longrightarrow> flow out \<noteq> 0"
    by (simp add: START_THRESHOLD_def)
  then show ?thesis using loop_goes_on [OF assms False] by auto
qed

theorem peak_monotone_witness:
  "loop (tick_at 100 506) calibrated = Inr out_506 \<and> isBreathing (nxt out_506) \<and>
   peakFlow calibrated \<le> peakFlow (nxt out_506) \<and>
   (\<exists>out. loop (tick_at 1800 500) exhaled = Inr out \<and> peakFlow (nxt out) < peakFlow exhaled \<and>
      peakFlow (nxt out) = 0 \<and> peakFlow exhaled \<noteq> 0 \<and>
      isBreathing exhaled \<and> \<not> isBreathing (nxt out))"
proof -
  from last_pass obtain out where l: "loop (tick_at 1800 500) exhaled = Inr out"
    and p: "peakFlow (nxt out) = 0" by blast
  have "peakFlow (nxt out) < peakFlow exhaled" "peakFlow exhaled \<noteq> 0"
    using p exhaled_facts(8) by simp_all
  with peak_monotone [OF l] l p
  have "\<exists>out. loop (tick_at 1800 500) exhaled = Inr out \<and> peakFlow (nxt out) < peakFlow exhaled \<and>
      peakFlow (nxt out) = 0 \<and> peakFlow exhaled \<noteq> 0 \<and>
      isBreathing exhaled \<and> \<not> isBreathing (nxt out)"
    by blast
  moreover have "isBreathing (nxt out_506)" by (simp add: out_506_def)
  ultimately show ?thesis using peak_monotone [OF loop_506] loop_506 by blast
qed

section \<open>Volume integration\<close>

text \<open>
  C6: the accumulated volume is at least 0 in every reachable state. The increment a
  pass would add from a reachable state is never negative, and a completed pass either
  leaves the volume at 0 (the reset at breath end) or does not decrease it.
\<close>

theorem volume_nonneg:
  assumes "reachable s"
  shows "0 \<le> currentVol s \<and>
    0 \<le> ((flow_of (filtered_now i s) + previousFlow s) / 2 / 60) * dt_now i s * VOLUME_SCALER \<and>
    (loop i s = Inr out \<longrightarrow> currentVol (nxt out) = 0 \<or> currentVol s \<le> currentVol (nxt out))"
proof -
  note inv = reachable_inv [OF assms]
  have inc: "0 \<le> instantVol (flow_of (filtered_now i s)) (previousFlow s) (dt_now i s) * VOLUME_SCALER"
    using inv by (intro instantVol_nonneg) (simp_all add: flow_of_nonneg dt_now_nonneg)
  have "currentVol (nxt out) = 0 \<or> currentVol s \<le> currentVol (nxt out)" if l: "loop i s = Inr out"
  proof (cases "ends i s")
    case True
    then show ?thesis using loop_ends [OF l True] by simp
  next
    case False
    then show ?thesis using loop_goes_on(2) [OF l False] inc by (simp add: loop_flow [OF l])
  qed
  then show ?thesis using inv inc by (simp add: instantVol_def)
qed

theorem volume_nonneg_witness:
  "reachable (nxt out_506) \<and> 0 \<le> currentVol (nxt out_506) \<and> 0 < currentVol (nxt out_506) \<and>
   reachable calibrated \<and> loop (tick_at 100 506) calibrated = Inr out_506 \<and>
   currentVol calibrated \<le> currentVol (nxt out_506)"
proof -
  have "0 < currentVol (nxt out_506)"
    by (simp add: out_506_def instantVol_def VOLUME_SCALER_def flow_of_pos_iff)
  moreover have "currentVol calibrated = 0" by (simp add: calibrated_eq)
  ultimately show ?thesis
    using volume_nonneg [OF reachable_506] volume_nonneg [OF reachable_calibrated, of "tick_at 100 506" out_506]
      reachable_506 reachable_calibrated loop_506
    by simp
qed

text \<open>
  C5, as stated, fails on the pass that ends a breath: the flow is at most the cutoff
  threshold, so nothing is integrated, and yet the accumulated volume changes, because
  the stop logic resets it to 0. The run is the example breath followed by one baseline
  pass at 1800 ms, when more than the timeout has passed since the stop timer (760 ms).
\<close>

theorem volume_step_counterexample:
  "case run calibrated (exhale @ [tick_at 1800 500]) of
     Inl f \<Rightarrow> False
   | Inr outs \<Rightarrow>
       \<not> CUTOFF_THRESHOLD < flow (outs ! 26) \<and>
       currentVol (nxt (outs ! 26)) \<noteq> currentVol (nxt (outs ! 25))"
proof -
  from exhale_run obtain outs where r: "run calibrated exhale = Inr outs"
    and e: "exhaled = final calibrated outs" by blast
  from last_pass obtain out where l: "loop (tick_at 1800 500) exhaled = Inr out"
    and f: "flow out \<le> CUTOFF_THRESHOLD" and v: "currentVol (nxt out) = 0" by blast
  have n: "length outs = 26" using run_length [OF r] by (simp add: exhale_def)
  then have ne: "outs \<noteq> []" by auto
  have "run calibrated (exhale @ [tick_at 1800 500]) = Inr (outs @ [out])"
    using l by (simp add: run_append r e [symmetric])
  moreover have "(outs @ [out]) ! 26 = out" using n by (simp add: nth_append)
  moreover have "nxt ((outs @ [out]) ! 25) = exhaled"
    using n ne by (simp add: nth_append e final_def last_conv_nth)
  ultimately show ?thesis using f v exhaled_facts(7) by simp
qed

text \<open>
  C5, amended: on every completed pass the increment is
  \<open>((flow + previousFlow) / 2 / 60) * dt * VOLUME_SCALER\<close>, where \<open>dt\<close> is the time in
  seconds since \<open>previousMillis\<close>. On a pass that does not end a breath it is added to
  the accumulated volume if and only if the state after the start check of that pass is
  Breathing and the flow exceeds the cutoff threshold, and the volume is unchanged
  otherwise. On the pass that ends a breath the accumulated volume is reset to 0.
\<close>

theorem volume_step:
  assumes "loop i s = Inr out"
  shows "currentVol (nxt out) =
    (if ends i s then 0
     else if isBreathing (breath_start i (flow out) s) \<and> flow out > CUTOFF_THRESHOLD
     then currentVol s + ((flow out + previousFlow s) / 2 / 60) * dt_now i s * VOLUME_SCALER
     else currentVol s)"
proof (cases "ends i s")
  case True
  then show ?thesis using loop_ends [OF assms True] by simp
next
  case False
  then show ?thesis using loop_goes_on [OF assms False]
    by (simp add: breath_start_def instantVol_def)
qed

theorem volume_step_witness:
  "loop (tick_at 100 506) calibrated = Inr out_506 \<and>
   currentVol (nxt out_506) =
     currentVol calibrated + ((flow out_506 + previousFlow calibrated) / 2 / 60) * (1 / 10) * VOLUME_SCALER"
  using volume_step [OF loop_506] loop_506
  by (simp add: out_506_def calibrated_eq instantVol_def)

section \<open>Breath segmentation\<close>

text \<open>
  C1, as stated, fails. The stop timer is restarted whenever the flow exceeds the start
  threshold (line 105), not when the flow falls to the cutoff threshold. In the example
  breath the flow last exceeds the start threshold in the pass at 760 ms and is still
  above the cutoff threshold in the pass at 1600 ms. In the next pass, at 1800 ms, it is
  at most the cutoff threshold for the first time, and that same pass takes the state
  to Idle (all clock readings of the pass are 1800), a full timeout earlier than C1
  allows.
\<close>

theorem breath_end_timing_counterexample:
  "case run calibrated (exhale @ [tick_at 1800 500]) of
     Inl f \<Rightarrow> False
   | Inr outs \<Rightarrow>
       isBreathing (nxt (outs ! 25)) \<and> CUTOFF_THRESHOLD < flow (outs ! 25) \<and>
       t_loop ((exhale @ [tick_at 1800 500]) ! 25) = 1600 \<and>
       flow (outs ! 26) \<le> CUTOFF_THRESHOLD \<and> \<not> isBreathing (nxt (outs ! 26)) \<and>
       t_loop ((exhale @ [tick_at 1800 500]) ! 26) = 1800 \<and>
       t_stop ((exhale @ [tick_at 1800 500]) ! 26) = 1800"
proof -
  from exhale_run obtain outs where r: "run calibrated exhale = Inr outs"
    and e: "exhaled = final calibrated outs"
    and a: "\<forall>out\<in>set outs. CUTOFF_THRESHOLD < flow out \<and> isBreathing (nxt out)" by blast
  from last_pass obtain out where l: "loop (tick_at 1800 500) exhaled = Inr out"
    and f: "flow out \<le> CUTOFF_THRESHOLD" and b: "\<not> isBreathing (nxt out)" by blast
  have n: "length outs = 26" using run_length [OF r] by (simp add: exhale_def)
  have "run calibrated (exhale @ [tick_at 1800 500]) = Inr (outs @ [out])"
    using l by (simp add: run_append r e [symmetric])
  moreover have "(outs @ [out]) ! 26 = out" using n by (simp add: nth_append)
  moreover have "(outs @ [out]) ! 25 = outs ! 25" using n by (simp add: nth_append)
  moreover have "outs ! 25 \<in> set outs" using n by simp
  moreover have "t_loop ((exhale @ [tick_at 1800 500]) ! 25) = 1600"
    "t_loop ((exhale @ [tick_at 1800 500]) ! 26) = 1800"
    "t_stop ((exhale @ [tick_at 1800 500]) ! 26) = 1800"
    by (simp_all add: exhale_def tick_at_def)
  ultimately show ?thesis using f b a by simp
qed

text \<open>
  C1, amended. A completed pass takes the state from Breathing to Idle exactly when the
  flow of the pass is at most the cutoff threshold and the clock read in the stop check
  is more than the timeout past the stop timer; the stop timer is the clock value read
  in the last pass whose flow exceeded the start threshold; the pass completes when the
  button is eventually released. Over a run: if pass \<open>j\<close> is the last pass before
  pass \<open>k\<close> whose flow exceeded the start threshold and pass \<open>k\<close> takes the state from
  Breathing to Idle, then the flow of pass \<open>k\<close> is at most the cutoff threshold and its
  stop check reads the clock more than the timeout after the clock value taken in
  pass \<open>j\<close> (differences of the 32-bit clock). The flow need not have been at or
  below the cutoff threshold for that long.
\<close>

theorem breath_end_timing:
  "(loop i s = Inr out \<longrightarrow>
      ((isBreathing s \<and> \<not> isBreathing (nxt out)) \<longleftrightarrow>
         (isBreathing s \<and> flow out \<le> CUTOFF_THRESHOLD \<and>
          BREATH_TIMEOUT < t_stop i - breathStopTimer s)) \<and>
      breathStopTimer (nxt out) =
        (if START_THRESHOLD < flow out then t_start i else breathStopTimer s)) \<and>
   (False \<in> set (button i) \<longrightarrow> (\<exists>out. loop i s = Inr out)) \<and>
   (run s0 is = Inr outs \<and> j < k \<and> k < length is \<and>
      START_THRESHOLD < flow (outs ! j) \<and>
      (\<forall>m. j < m \<and> m \<le> k \<longrightarrow> flow (outs ! m) \<le> START_THRESHOLD) \<and>
      isBreathing (nxt (outs ! (k - 1))) \<and> \<not> isBreathing (nxt (outs ! k)) \<longrightarrow>
      flow (outs ! k) \<le> CUTOFF_THRESHOLD \<and>
      BREATH_TIMEOUT < t_stop (is ! k) - t_start (is ! j))"
proof (intro conjI impI)
  assume l: "loop i s = Inr out"
  show "(isBreathing s \<and> \<not> isBreathing (nxt out)) \<longleftrightarrow>
         (isBreathing s \<and> flow out \<le> CUTOFF_THRESHOLD \<and>
          BREATH_TIMEOUT < t_stop i - breathStopTimer s)"
    by (rule loop_to_idle [OF l])
  show "breathStopTimer (nxt out) =
        (if START_THRESHOLD < flow out then t_start i else breathStopTimer s)"
    by (rule loop_timer [OF l])
next
  assume "False \<in> set (button i)"
  then show "\<exists>out. loop i s = Inr out" using loop_returns by blast
next
  assume a: "run s0 is = Inr outs \<and> j < k \<and> k < length is \<and>
      START_THRESHOLD < flow (outs ! j) \<and>
      (\<forall>m. j < m \<and> m \<le> k \<longrightarrow> flow (outs ! m) \<le> START_THRESHOLD) \<and>
      isBreathing (nxt (outs ! (k - 1))) \<and> \<not> isBreathing (nxt (outs ! k))"
  then have r: "run s0 is = Inr outs" and jk: "j < k" and kl: "k < length is"
    and fj: "START_THRESHOLD < flow (outs ! j)"
    and q: "\<forall>m. j < m \<and> m < k \<longrightarrow> flow (outs ! m) \<le> START_THRESHOLD"
    and b: "isBreathing (nxt (outs ! (k - 1)))" and nb: "\<not> isBreathing (nxt (outs ! k))"
    by simp_all
  have n: "length outs = length is" using run_length [OF r] .
  have l: "loop (is ! k) (final s0 (take k outs)) = Inr (outs ! k)"
    using run_nth [OF r kl] .
  have t: "breathStopTimer (final s0 (take k outs)) = t_start (is ! j)"
    using timer_kept [OF r fj q jk] kl by simp
  obtain k' where k': "k = Suc k'" using jk by (cases k) simp_all
  have "final s0 (take k outs) = nxt (outs ! (k - 1))"
    using kl n by (simp add: k' final_take_Suc)
  then have "isBreathing (final s0 (take k outs))" using b by simp
  with loop_to_idle [OF l] nb t
  have "flow (outs ! k) \<le> CUTOFF_THRESHOLD \<and>
      BREATH_TIMEOUT < t_stop (is ! k) - t_start (is ! j)" by simp
  then show "flow (outs ! k) \<le> CUTOFF_THRESHOLD"
    and "BREATH_TIMEOUT < t_stop (is ! k) - t_start (is ! j)" by simp_all
qed

theorem breath_end_timing_witness:
  "(\<exists>out. loop (tick_at 1800 500) exhaled = Inr out \<and> False \<in> set (button (tick_at 1800 500)) \<and>
     isBreathing exhaled \<and> \<not> isBreathing (nxt out) \<and> flow out \<le> CUTOFF_THRESHOLD \<and>
     BREATH_TIMEOUT < t_stop (tick_at 1800 500) - breathStopTimer exhaled \<and>
     breathStopTimer (nxt out) = breathStopTimer exhaled) \<and>
   (case run calibrated (exhale @ [tick_at 1800 500]) of
      Inl f \<Rightarrow> False
    | Inr outs \<Rightarrow>
        START_THRESHOLD < flow (outs ! 11) \<and>
        filter (\<lambda>x. START_THRESHOLD < flow x) (drop 12 outs) = [] \<and>
        isBreathing (nxt (outs ! 25)) \<and> \<not> isBreathing (nxt (outs ! 26)) \<and>
        flow (outs ! 26) \<le> CUTOFF_THRESHOLD \<and>
        BREATH_TIMEOUT <
          t_stop ((exhale @ [tick_at 1800 500]) ! 26) - t_start ((exhale @ [tick_at 1800 500]) ! 11))"
proof -
  let ?is = "exhale @ [tick_at 1800 500]"
  have b: "False \<in> set (button (tick_at 1800 500))" by (simp add: tick_at_def)
  from last_pass obtain out where l: "loop (tick_at 1800 500) exhaled = Inr out"
    and n: "\<not> isBreathing (nxt out)" and f: "flow out \<le> CUTOFF_THRESHOLD" by blast
  have ns: "\<not> START_THRESHOLD < flow out" using f start_above_cutoff [of "flow out"] by auto
  from exhale_run obtain outs where r: "run calibrated exhale = Inr outs"
    and e: "exhaled = final calibrated outs"
    and fl: "\<forall>m<26. flow (outs ! m) = flow_of (3 / 5 * (9 / 10) ^ m)" by blast
  have len: "length outs = 26" using run_length [OF r] by (simp add: exhale_def)
  let ?outs = "outs @ [out]"
  have run: "run calibrated ?is = Inr ?outs"
    using l by (simp add: run_append r e [symmetric])
  have o26: "?outs ! 26 = out" using len by (simp add: nth_append)
  have ne: "outs \<noteq> []" using len by auto
  have o25: "nxt (?outs ! 25) = exhaled"
    using len ne by (simp add: nth_append e final_def last_conv_nth)
  have hi: "START_THRESHOLD < flow (?outs ! 11)"
    using fl len by (simp add: nth_append flow_gt_START power_divide)
  have low: "flow (?outs ! m) \<le> START_THRESHOLD" if "11 < m" "m \<le> 26" for m
  proof (cases "m = 26")
    case True
    then show ?thesis using ns by (simp add: o26)
  next
    case False
    then have m: "m < 26" "12 \<le> m" using that by simp_all
    then have "flow (?outs ! m) = flow_of (3 / 5 * (9 / 10) ^ m)"
      using fl len by (simp add: nth_append)
    then show ?thesis using decayed_flow_low [OF m(2)] by simp
  qed
  have none: "filter (\<lambda>x. START_THRESHOLD < flow x) (drop 12 ?outs) = []"
  proof -
    have "\<not> START_THRESHOLD < flow x" if "x \<in> set (drop 12 ?outs)" for x
    proof -
      from that [unfolded in_set_conv_nth]
      obtain k where k: "k < length (drop 12 ?outs)" "x = drop 12 ?outs ! k" by blast
      have "12 + k \<le> length ?outs" using k(1) by simp
      then have "x = ?outs ! (12 + k)" "12 + k \<le> 26"
        using len k by (simp_all only: nth_drop) simp_all
      then show ?thesis using low [of "12 + k"] by simp
    qed
    then show ?thesis by (simp add: filter_empty_conv)
  qed
  have t: "t_stop (?is ! 26) = 1800" "t_start (?is ! 11) = 760"
    by (simp_all add: exhale_def tick_at_def)
  have "\<forall>m. 11 < m \<and> m \<le> 26 \<longrightarrow> flow (?outs ! m) \<le> START_THRESHOLD"
    using low by blast
  with breath_end_timing [of "tick_at 1800 500" exhaled out calibrated ?is ?outs 11 26]
    l n f b ns exhaled_facts(2) run hi o25 o26
  have "(\<exists>out. loop (tick_at 1800 500) exhaled = Inr out \<and> False \<in> set (button (tick_at 1800 500)) \<and>
     isBreathing exhaled \<and> \<not> isBreathing (nxt out) \<and> flow out \<le> CUTOFF_THRESHOLD \<and>
     BREATH_TIMEOUT < t_stop (tick_at 1800 500) - breathStopTimer exhaled \<and>
     breathStopTimer (nxt out) = breathStopTimer exhaled)"
    and "BREATH_TIMEOUT < t_stop (?is ! 26) - t_start (?is ! 11)"
    by (auto simp: exhale_def)
  then show ?thesis using run hi none o25 o26 n f exhaled_facts(2) by simp
qed

section \<open>The end of a breath\<close>

text \<open>
  C4: a pass that starts in state Breathing, computes a flow of at most the cutoff
  threshold and reads the clock more than the timeout past the stop timer (\<open>ends\<close>)
  shows the summary of peak flow and accumulated volume exactly once and, once the
  button is released, leaves peak flow, accumulated volume, smoothed value and previous
  flow at 0 and the state Idle; as long as the button is not released the pass does not
  return, and the summary is on the screen. No other pass shows a summary. From a
  reachable state every other pass completes and gives the four fields their ordinary
  update only: peak flow and accumulated volume do not decrease (and are 0 afterwards
  only if they were 0 before), the smoothed value takes the value of line 91 and the
  previous flow the flow of the pass (line 118). Over a run, the number of summaries
  shown is the number of passes that took the state from Breathing to Idle: one per
  completed breath.
\<close>

theorem breath_summary:
  assumes "reachable s"
  shows "(ends i s \<and> False \<in> set (button i) \<longrightarrow>
           (\<exists>out. loop i s = Inr out \<and>
              results (shown out) = [Result (peakFlow s) (currentVol s)] \<and>
              peakFlow (nxt out) = 0 \<and> currentVol (nxt out) = 0 \<and>
              filteredValue (nxt out) = 0 \<and> previousFlow (nxt out) = 0 \<and>
              \<not> isBreathing (nxt out))) \<and>
         (ends i s \<and> False \<notin> set (button i) \<longrightarrow>
            loop i s = Inl (Blocked [Result (peakFlow s) (currentVol s)])) \<and>
         (\<not> ends i s \<longrightarrow>
           (\<exists>out. loop i s = Inr out \<and> results (shown out) = [] \<and>
              peakFlow s \<le> peakFlow (nxt out) \<and>
              (peakFlow (nxt out) = 0 \<longrightarrow> peakFlow s = 0) \<and>
              currentVol s \<le> currentVol (nxt out) \<and>
              (currentVol (nxt out) = 0 \<longrightarrow> currentVol s = 0) \<and>
              filteredValue (nxt out) = filtered_now i s \<and>
              previousFlow (nxt out) = flow out)) \<and>
         (run s is = Inr outs \<longrightarrow> length (summaries outs) = to_idle s outs)"
proof (intro conjI impI)
  assume a: "ends i s \<and> False \<in> set (button i)"
  then obtain out where l: "loop i s = Inr out" using loop_returns by blast
  show "\<exists>out. loop i s = Inr out \<and>
              results (shown out) = [Result (peakFlow s) (currentVol s)] \<and>
              peakFlow (nxt out) = 0 \<and> currentVol (nxt out) = 0 \<and>
              filteredValue (nxt out) = 0 \<and> previousFlow (nxt out) = 0 \<and>
              \<not> isBreathing (nxt out)"
    using l a loop_ends [OF l] by simp
next
  assume "ends i s \<and> False \<notin> set (button i)"
  then show "loop i s = Inl (Blocked [Result (peakFlow s) (currentVol s)])"
    by (simp add: loop_blocked)
next
  assume ne: "\<not> ends i s"
  then obtain out where l: "loop i s = Inr out" using loop_returns by blast
  note g = loop_goes_on [OF l ne]
  note inv = reachable_inv [OF assms]
  have st: "START_THRESHOLD < flow out \<Longrightarrow> flow out \<noteq> 0"
    by (simp add: START_THRESHOLD_def)
  have inc: "0 \<le> instantVol (flow out) (previousFlow s) (dt_now i s) * VOLUME_SCALER"
    using inv by (intro instantVol_nonneg) (simp_all add: loop_flow [OF l] flow_of_nonneg dt_now_nonneg)
  have p: "peakFlow s \<le> peakFlow (nxt out)" "peakFlow (nxt out) = 0 \<longrightarrow> peakFlow s = 0"
    using g(3) st by (simp_all split: if_splits)
  have v: "currentVol s \<le> currentVol (nxt out)" "currentVol (nxt out) = 0 \<longrightarrow> currentVol s = 0"
    using g(2) inc inv by (simp_all split: if_splits)
  show "\<exists>out. loop i s = Inr out \<and> results (shown out) = [] \<and>
              peakFlow s \<le> peakFlow (nxt out) \<and>
              (peakFlow (nxt out) = 0 \<longrightarrow> peakFlow s = 0) \<and>
              currentVol s \<le> currentVol (nxt out) \<and>
              (currentVol (nxt out) = 0 \<longrightarrow> currentVol s = 0) \<and>
              filteredValue (nxt out) = filtered_now i s \<and>
              previousFlow (nxt out) = flow out"
    using l g(4) g(5) g(6) p v by blast
next
  assume "run s is = Inr outs"
  then show "length (summaries outs) = to_idle s outs" by (rule run_summaries)
qed

theorem breath_summary_witness:
  "reachable exhaled \<and> ends (tick_at 1800 500) exhaled \<and> False \<in> set (button (tick_at 1800 500)) \<and>
   (\<exists>out. loop (tick_at 1800 500) exhaled = Inr out \<and>
      results (shown out) = [Result (peakFlow exhaled) (currentVol exhaled)] \<and>
      peakFlow (nxt out) = 0 \<and> currentVol (nxt out) = 0 \<and>
      filteredValue (nxt out) = 0 \<and> previousFlow (nxt out) = 0 \<and> \<not> isBreathing (nxt out)) \<and>
   reachable calibrated \<and> \<not> ends (tick_at 100 506) calibrated \<and>
   loop (tick_at 100 506) calibrated = Inr out_506 \<and> results (shown out_506) = [] \<and>
   peakFlow calibrated \<le> peakFlow (nxt out_506) \<and>
   currentVol calibrated \<le> currentVol (nxt out_506) \<and>
   filteredValue (nxt out_506) = filtered_now (tick_at 100 506) calibrated \<and>
   previousFlow (nxt out_506) = flow out_506 \<and>
   ends never_released exhaled \<and> False \<notin> set (button never_released) \<and>
   loop never_released exhaled = Inl (Blocked [Result (peakFlow exhaled) (currentVol exhaled)]) \<and>
   (\<exists>outs. run calibrated (exhale @ [tick_at 1800 500]) = Inr outs \<and>
      length (summaries outs) = 1 \<and> to_idle calibrated outs = 1)"
proof -
  have b: "False \<in> set (button (tick_at 1800 500))" by (simp add: tick_at_def)
  have n: "\<not> ends (tick_at 100 506) calibrated" by (simp add: ends_def calibrated_eq)
  have e: "results (shown out_506) = []" by (simp add: out_506_def results_def)
  from exhale_run obtain outs where r: "run calibrated exhale = Inr outs"
    and ex: "exhaled = final calibrated outs"
    and a: "\<forall>out\<in>set outs. CUTOFF_THRESHOLD < flow out \<and> isBreathing (nxt out)" by blast
  from last_pass obtain out where l: "loop (tick_at 1800 500) exhaled = Inr out"
    and nb: "\<not> isBreathing (nxt out)" by blast
  have run: "run calibrated (exhale @ [tick_at 1800 500]) = Inr (outs @ [out])"
    using l by (simp add: run_append r ex [symmetric])
  have "to_idle calibrated outs = 0" using a by (intro to_idle_breathing) simp
  then have t: "to_idle calibrated (outs @ [out]) = 1"
    using nb exhaled_facts(2) by (simp add: to_idle_append ex [symmetric])
  have "length (summaries (outs @ [out])) = 1"
    using breath_summary [OF reachable_calibrated, of _ "exhale @ [tick_at 1800 500]" "outs @ [out]"]
      run t by simp
  then have "\<exists>outs. run calibrated (exhale @ [tick_at 1800 500]) = Inr outs \<and>
      length (summaries outs) = 1 \<and> to_idle calibrated outs = 1"
    using run t by blast
  moreover have bl: "ends never_released exhaled" "False \<notin> set (button never_released)"
    using blocked_pass loop_blocked [of never_released exhaled] by simp_all
  moreover have "loop never_released exhaled =
      Inl (Blocked [Result (peakFlow exhaled) (currentVol exhaled)])"
    using breath_summary [OF exhaled_facts(1), of never_released] bl by simp
  moreover have "peakFlow calibrated \<le> peakFlow (nxt out_506)"
    "currentVol calibrated \<le> currentVol (nxt out_506)"
    "filteredValue (nxt out_506) = filtered_now (tick_at 100 506) calibrated"
    "previousFlow (nxt out_506) = flow out_506"
    using breath_summary [OF reachable_calibrated, of "tick_at 100 506"] n loop_506 by auto
  ultimately show ?thesis
    using breath_summary [OF exhaled_facts(1), of "tick_at 1800 500"] ends_1800 b
      exhaled_facts(1) reachable_calibrated n loop_506 e
    by simp
qed

section \<open>Staying idle\<close>

text \<open>
  C8: starting in state Idle, as long as no pass computes a flow strictly above the start
  threshold, every pass leaves the state Idle, shows no breath summary and leaves the
  accumulated volume as it was; a run from Idle can fail to return only after some
  pass has computed a flow above the start threshold. In particular, on a freshly
  calibrated board every run whose samples stay within the deadzone (as a sample equal
  to the offset does) returns, all its flows are 0, no summary is shown and the
  accumulated volume stays 0.
\<close>

theorem idle_stays_idle:
  "(\<not> isBreathing s \<and> run s is = Inr outs \<and> (\<forall>x\<in>set outs. flow x \<le> START_THRESHOLD) \<longrightarrow>
      (\<forall>x\<in>set outs. \<not> isBreathing (nxt x) \<and> results (shown x) = [] \<and>
         currentVol (nxt x) = currentVol s)) \<and>
   (\<not> isBreathing s \<and> run s is = Inl f \<longrightarrow>
      (\<exists>n outs'. run s (take n is) = Inr outs' \<and> outs' \<noteq> [] \<and>
         START_THRESHOLD < flow (last outs'))) \<and>
   (setup_board display_begin analogRead t0 = Some s0 \<and>
    (\<forall>i\<in>set is. real_of_int (raw i) - sensorOffset s0 < 5.4) \<longrightarrow>
      (\<exists>outs'. run s0 is = Inr outs' \<and>
         (\<forall>x\<in>set outs'. flow x = 0 \<and> \<not> isBreathing (nxt x) \<and> results (shown x) = [] \<and>
            currentVol (nxt x) = 0)))"
proof (intro conjI impI)
  assume "\<not> isBreathing s \<and> run s is = Inr outs \<and> (\<forall>x\<in>set outs. flow x \<le> START_THRESHOLD)"
  then show "\<forall>x\<in>set outs. \<not> isBreathing (nxt x) \<and> results (shown x) = [] \<and>
         currentVol (nxt x) = currentVol s"
    using idle_run by blast
next
  assume "\<not> isBreathing s \<and> run s is = Inl f"
  then show "\<exists>n outs'. run s (take n is) = Inr outs' \<and> outs' \<noteq> [] \<and>
         START_THRESHOLD < flow (last outs')"
    using idle_run_returns by blast
next
  assume a: "setup_board display_begin analogRead t0 = Some s0 \<and>
    (\<forall>i\<in>set is. real_of_int (raw i) - sensorOffset s0 < 5.4)"
  then have su: "setup_board display_begin analogRead t0 = Some s0" by simp
  from a show "\<exists>outs'. run s0 is = Inr outs' \<and>
         (\<forall>x\<in>set outs'. flow x = 0 \<and> \<not> isBreathing (nxt x) \<and> results (shown x) = [] \<and>
            currentVol (nxt x) = 0)"
    by (intro still_run) (simp_all add: setup_fields [OF su])
qed

theorem idle_stays_idle_witness:
  "setup_board True (\<lambda>_. 500) 0 = Some calibrated \<and>
   (\<exists>outs. run calibrated [tick_at 100 500, tick_at 160 503] = Inr outs \<and>
      \<not> isBreathing calibrated \<and> map flow outs = [0, 0] \<and>
      map (\<lambda>x. isBreathing (nxt x)) outs = [False, False] \<and>
      map (\<lambda>x. currentVol (nxt x)) outs = [currentVol calibrated, currentVol calibrated] \<and>
      map (\<lambda>x. results (shown x)) outs = [[], []]) \<and>
   \<not> isBreathing calibrated \<and>
   run calibrated (exhale @ [never_released]) =
     Inl (Blocked [Result (peakFlow exhaled) (currentVol exhaled)]) \<and>
   (\<exists>n outs'. run calibrated (take n (exhale @ [never_released])) = Inr outs' \<and>
      outs' \<noteq> [] \<and> START_THRESHOLD < flow (last outs'))"
proof -
  let ?is = "[tick_at 100 500, tick_at 160 503]"
  have nb: "\<not> isBreathing calibrated" by (simp add: calibrated_eq)
  have q: "\<forall>i\<in>set ?is. real_of_int (raw i) - sensorOffset calibrated < 5.4"
    by (simp add: calibrated_eq tick_at_def)
  from idle_stays_idle [of _ ?is _ _ True "\<lambda>_. 500" 0 calibrated] q setup_calibrated
  obtain outs where r: "run calibrated ?is = Inr outs"
    and a: "\<forall>x\<in>set outs. flow x = 0 \<and> \<not> isBreathing (nxt x) \<and> results (shown x) = [] \<and>
            currentVol (nxt x) = 0"
    by blast
  have "\<forall>x\<in>set outs. flow x \<le> START_THRESHOLD" using a by (simp add: START_THRESHOLD_def)
  with idle_stays_idle [of calibrated ?is outs] nb r
  have a': "\<forall>x\<in>set outs. \<not> isBreathing (nxt x) \<and> results (shown x) = [] \<and>
         currentVol (nxt x) = currentVol calibrated" by blast
  have "length outs = 2" using run_length [OF r] by simp
  then obtain x y where o: "outs = [x, y]"
    by (auto simp: numeral_2_eq_2 length_Suc_conv)
  have first: "\<exists>outs. run calibrated ?is = Inr outs \<and>
      \<not> isBreathing calibrated \<and> map flow outs = [0, 0] \<and>
      map (\<lambda>x. isBreathing (nxt x)) outs = [False, False] \<and>
      map (\<lambda>x. currentVol (nxt x)) outs = [currentVol calibrated, currentVol calibrated] \<and>
      map (\<lambda>x. results (shown x)) outs = [[], []]"
    using r a a' nb by (intro exI [of _ outs]) (simp add: o)
  from exhale_run obtain outs2 where r2: "run calibrated exhale = Inr outs2"
    and e: "exhaled = final calibrated outs2" by blast
  have bl: "run calibrated (exhale @ [never_released]) =
      Inl (Blocked [Result (peakFlow exhaled) (currentVol exhaled)])"
    using blocked_pass by (simp add: run_append r2 e [symmetric])
  with idle_stays_idle [of calibrated "exhale @ [never_released]" _
      "Blocked [Result (peakFlow exhaled) (currentVol exhaled)]"] nb
  have "\<exists>n outs'. run calibrated (take n (exhale @ [never_released])) = Inr outs' \<and>
      outs' \<noteq> [] \<and> START_THRESHOLD < flow (last outs')" by blast
  with first nb bl setup_calibrated show ?thesis by blast
qed

section \<open>Clock readings and determinism\<close>

text \<open>
  C9, as stated, fails: a pass reads the clock not once but at up to six places, and
  the stop check uses its own reading (line 124). The two runs below get the same
  samples and the same clock value at the start of every pass, and compute the same
  flows; in the last pass the stop check reads 1760 in one run and 1761 in the other,
  which is exactly 1000 and 1001 ms past the stop timer, so one run stays in state
  Breathing and the other goes to Idle.
\<close>

theorem readings_determine_run_counterexample:
  "map raw (exhale @ [tick_at 1760 500]) = map raw (exhale @ [late_stop]) \<and>
   map t_loop (exhale @ [tick_at 1760 500]) = map t_loop (exhale @ [late_stop]) \<and>
   (case run calibrated (exhale @ [tick_at 1760 500]) of
      Inl f \<Rightarrow> False
    | Inr as \<Rightarrow>
        (case run calibrated (exhale @ [late_stop]) of
           Inl f \<Rightarrow> False
         | Inr bs \<Rightarrow>
             map flow as = map flow bs \<and>
             isBreathing (nxt (last as)) \<and> \<not> isBreathing (nxt (last bs))))"
proof -
  from exhale_run obtain outs where r: "run calibrated exhale = Inr outs"
    and e: "exhaled = final calibrated outs" by blast
  from late_stop_passes obtain a b where la: "loop (tick_at 1760 500) exhaled = Inr a"
    and lb: "loop late_stop exhaled = Inr b"
    and h: "isBreathing (nxt a)" "\<not> isBreathing (nxt b)" "flow a = flow b" by blast
  have "run calibrated (exhale @ [tick_at 1760 500]) = Inr (outs @ [a])"
    using la by (simp add: run_append r e [symmetric])
  moreover have "run calibrated (exhale @ [late_stop]) = Inr (outs @ [b])"
    using lb by (simp add: run_append r e [symmetric])
  moreover have "map raw [tick_at 1760 500] = map raw [late_stop]"
    "map t_loop [tick_at 1760 500] = map t_loop [late_stop]"
    by (simp_all add: tick_at_def late_stop_def)
  ultimately show ?thesis using h by simp
qed

text \<open>
  C9, amended. Each pass derives \<open>dt\<close> from its first clock reading as the delta (of the
  32-bit clock, in seconds) to \<open>previousMillis\<close>, and the volume increment is computed
  with that \<open>dt\<close>; \<open>previousMillis\<close> then holds the first reading of the pass, or the
  reading taken after the button wait when the pass ended a breath. The pass reads the
  clock again for the stop timer (when the flow exceeds the start threshold), in the
  stop check and for the display refresh, and uses each reading where it was taken. Two
  runs that start from sessions equal up to \<open>lastDisplayTime\<close> and get identical
  samples, identical button polls and identical clock readings at the loop start, the
  stop-timer restart, the stop check and after the button wait, produce identical flows,
  identical sessions up to \<open>lastDisplayTime\<close> (volume, peak flow, breath state among
  them) and identical breath summaries, whatever the two display readings are.
\<close>

theorem readings_determine_run:
  "(list_all2 same_readings is is' \<and> core s0 = core s0' \<longrightarrow>
      rel_sum (=) (list_all2 same_outcome) (run s0 is) (run s0' is')) \<and>
   (loop i s = Inr out \<longrightarrow>
      previousMillis (nxt out) = (if ends i s then t_reset i else t_loop i) \<and>
      breathStopTimer (nxt out) =
        (if START_THRESHOLD < flow out then t_start i else breathStopTimer s) \<and>
      ((isBreathing s \<and> \<not> isBreathing (nxt out)) \<longleftrightarrow>
         (isBreathing s \<and> flow out \<le> CUTOFF_THRESHOLD \<and>
          BREATH_TIMEOUT < t_stop i - breathStopTimer s)) \<and>
      lastDisplayTime (nxt out) =
        (if 150 < t_disp i - lastDisplayTime s then t_drawn i else lastDisplayTime s) \<and>
      (\<not> ends i s \<longrightarrow>
         currentVol (nxt out) = currentVol s +
           (if isBreathing (breath_start i (flow out) s) \<and> CUTOFF_THRESHOLD < flow out
            then ((flow out + previousFlow s) / 2 / 60) *
                 (real (unat (t_loop i - previousMillis s)) / 1000) * VOLUME_SCALER
            else 0)))"
proof (intro conjI impI)
  assume "list_all2 same_readings is is' \<and> core s0 = core s0'"
  then show "rel_sum (=) (list_all2 same_outcome) (run s0 is) (run s0' is')"
    using run_core by blast
next
  assume l: "loop i s = Inr out"
  show "previousMillis (nxt out) = (if ends i s then t_reset i else t_loop i)"
    using loop_ends(9) [OF l] loop_goes_on(9) [OF l] by simp
  show "breathStopTimer (nxt out) =
        (if START_THRESHOLD < flow out then t_start i else breathStopTimer s)"
    by (rule loop_timer [OF l])
  show "(isBreathing s \<and> \<not> isBreathing (nxt out)) \<longleftrightarrow>
         (isBreathing s \<and> flow out \<le> CUTOFF_THRESHOLD \<and>
          BREATH_TIMEOUT < t_stop i - breathStopTimer s)"
    by (rule loop_to_idle [OF l])
  show "lastDisplayTime (nxt out) =
        (if 150 < t_disp i - lastDisplayTime s then t_drawn i else lastDisplayTime s)"
    by (rule loop_display [OF l])
next
  assume l: "loop i s = Inr out" and ne: "\<not> ends i s"
  show "currentVol (nxt out) = currentVol s +
           (if isBreathing (breath_start i (flow out) s) \<and> CUTOFF_THRESHOLD < flow out
            then ((flow out + previousFlow s) / 2 / 60) *
                 (real (unat (t_loop i - previousMillis s)) / 1000) * VOLUME_SCALER
            else 0)"
    using loop_goes_on(2) [OF l ne]
    by (simp add: breath_start_def instantVol_def dt_now_def)
qed

theorem readings_determine_run_witness:
  "list_all2 same_readings [tick_at 100 506] [redrawn] \<and> core calibrated = core calibrated \<and>
   run calibrated [tick_at 100 506] = Inr [out_506] \<and>
   (\<exists>out'. run calibrated [redrawn] = Inr [out'] \<and> same_outcome out_506 out' \<and>
      lastDisplayTime (nxt out') = 401 \<and> lastDisplayTime (nxt out_506) = 0 \<and>
      shown out' \<noteq> shown out_506) \<and>
   (\<exists>out. loop (tick_at 160 500) (nxt out_506) = Inr out \<and>
      \<not> ends (tick_at 160 500) (nxt out_506) \<and>
      previousMillis (nxt out) = 160 \<and> breathStopTimer (nxt out) = 160 \<and>
      lastDisplayTime (nxt out) = 160 \<and> isBreathing (nxt out) \<and>
      currentVol (nxt out) =
        currentVol (nxt out_506) +
        ((flow_of (27 / 50) + flow_of (3 / 5)) / 2 / 60) * (60 / 1000) * VOLUME_SCALER)"
proof -
  let ?out = "\<lparr> nxt = nxt out_506 \<lparr> lastDisplayTime := 401 \<rparr>, flow = flow_of (3 / 5),
      shown = [Live (flow_of (3 / 5)) (currentVol (nxt out_506))] \<rparr>"
  have sr: "list_all2 same_readings [tick_at 100 506] [redrawn]"
    by (simp add: same_readings_def tick_at_def redrawn_def)
  have l': "loop redrawn calibrated = Inr ?out"
    by (simp add: calibrated_eq out_506_def loop_eval redrawn_def)
  have r: "run calibrated [tick_at 100 506] = Inr [out_506]" by (simp add: loop_506)
  have r': "run calibrated [redrawn] = Inr [?out]" by (simp add: l')
  from readings_determine_run [of "[tick_at 100 506]" "[redrawn]" calibrated calibrated] sr
  have "rel_sum (=) (list_all2 same_outcome) (run calibrated [tick_at 100 506]) (run calibrated [redrawn])"
    by simp
  then have "same_outcome out_506 ?out" unfolding r r' by simp
  moreover have "lastDisplayTime (nxt ?out) = 401" "lastDisplayTime (nxt out_506) = 0"
    "shown ?out \<noteq> shown out_506"
    by (simp_all add: out_506_def)
  ultimately have first: "\<exists>out'. run calibrated [redrawn] = Inr [out'] \<and> same_outcome out_506 out' \<and>
      lastDisplayTime (nxt out') = 401 \<and> lastDisplayTime (nxt out_506) = 0 \<and>
      shown out' \<noteq> shown out_506"
    using r' by (intro exI [of _ ?out]) simp
  let ?i = "tick_at 160 500" and ?s = "nxt out_506"
  have q: "real_of_int (raw ?i) - sensorOffset ?s < 5.4"
    by (simp add: tick_at_def out_506_def)
  have fn: "filtered_now ?i ?s = 27 / 50"
    unfolding filtered_now_quiet [OF q] by (simp add: out_506_def)
  have ne: "\<not> ends ?i ?s"
    unfolding ends_def fn by (simp add: flow_gt_CUTOFF not_le)
  then obtain out where l: "loop ?i ?s = Inr out" using loop_returns by blast
  have fl: "flow out = flow_of (27 / 50)" using loop_flow [OF l] fn by simp
  have st: "START_THRESHOLD < flow out" "CUTOFF_THRESHOLD < flow out"
    by (simp_all add: fl flow_gt_START flow_gt_CUTOFF)
  have s: "isBreathing ?s" "previousFlow ?s = flow_of (3 / 5)" "previousMillis ?s = 100"
    "lastDisplayTime ?s = 0"
    by (simp_all add: out_506_def)
  have t: "t_loop ?i = 160" "t_start ?i = 160" "t_disp ?i = 160" "t_drawn ?i = 160"
    by (simp_all add: tick_at_def)
  from readings_determine_run [of _ _ _ _ ?i ?s out] l ne st s(1)
  have "previousMillis (nxt out) = t_loop ?i" "breathStopTimer (nxt out) = t_start ?i"
    "lastDisplayTime (nxt out) =
       (if 150 < t_disp ?i - lastDisplayTime ?s then t_drawn ?i else lastDisplayTime ?s)"
    "isBreathing (nxt out)"
    "currentVol (nxt out) = currentVol ?s +
       ((flow out + previousFlow ?s) / 2 / 60) *
       (real (unat (t_loop ?i - previousMillis ?s)) / 1000) * VOLUME_SCALER"
    by (auto simp: breath_start_def)
  then have "previousMillis (nxt out) = 160" "breathStopTimer (nxt out) = 160"
    "lastDisplayTime (nxt out) = 160" "isBreathing (nxt out)"
    "currentVol (nxt out) = currentVol ?s +
       ((flow_of (27 / 50) + flow_of (3 / 5)) / 2 / 60) * (60 / 1000) * VOLUME_SCALER"
    by (simp_all add: t s fl)
  then have "\<exists>out. loop ?i ?s = Inr out \<and> \<not> ends ?i ?s \<and>
      previousMillis (nxt out) = 160 \<and> breathStopTimer (nxt out) = 160 \<and>
      lastDisplayTime (nxt out) = 160 \<and> isBreathing (nxt out) \<and>
      currentVol (nxt out) =
        currentVol ?s +
        ((flow_of (27 / 50) + flow_of (3 / 5)) / 2 / 60) * (60 / 1000) * VOLUME_SCALER"
    using l ne by blast
  with first sr r show ?thesis by simp
qed

end
